theory Spec2Isabelle
  imports Complex_Main "HOL-Library.Product_Lexorder"
begin

section \<open>Calendar dates and timestamps\<close>

text \<open>
  The generator works on Python \<^verbatim>\<open>datetime\<close> and pandas \<^verbatim>\<open>Timestamp\<close> values. A date is
  the triple (year, month, day), a time of day the tuple (hour, minute, second,
  microsecond), a timestamp the pair of both. Python compares timestamps field by field
  from the year down, which is the lexicographic order of these tuples: \<open>\<le>\<close>, \<open><\<close> and
  \<open>min\<close> below are that order. The year range of Python (1 to 9999) and of pandas (1677
  to 2262) is not modelled: years are unbounded integers.
\<close>

type_synonym date = "int \<times> int \<times> int"
type_synonym time = "nat \<times> nat \<times> nat \<times> nat"
type_synonym datetime = "date \<times> time"

definition year :: "datetime \<Rightarrow> int" where
  "year ts = fst (fst ts)"

definition month :: "datetime \<Rightarrow> int" where
  "month ts = fst (snd (fst ts))"

definition day :: "datetime \<Rightarrow> int" where
  "day ts = snd (snd (fst ts))"

text \<open>\<^verbatim>\<open>ts.date()\<close>\<close>

definition date_of :: "datetime \<Rightarrow> date" where
  "date_of ts = fst ts"

definition time_of :: "datetime \<Rightarrow> time" where
  "time_of ts = snd ts"

text \<open>\<^verbatim>\<open>datetime(y, m, d)\<close>: midnight of that day.\<close>

definition midnight :: "date \<Rightarrow> datetime" where
  "midnight d = (d, (0, 0, 0, 0))"

definition is_leap :: "int \<Rightarrow> bool" where
  "is_leap y = (y mod 4 = 0 \<and> (y mod 100 \<noteq> 0 \<or> y mod 400 = 0))"

definition days_in_month :: "int \<Rightarrow> int \<Rightarrow> int" where
  "days_in_month y m =
     (if m = 2 then (if is_leap y then 29 else 28)
      else if m = 4 \<or> m = 6 \<or> m = 9 \<or> m = 11 then 30 else 31)"

text \<open>The dates and timestamps that Python's constructors accept.\<close>

definition valid_date :: "date \<Rightarrow> bool" where
  "valid_date d = (case d of (y, m, dd) \<Rightarrow>
     1 \<le> m \<and> m \<le> 12 \<and> 1 \<le> dd \<and> dd \<le> days_in_month y m)"

definition valid_time :: "time \<Rightarrow> bool" where
  "valid_time t = (case t of (h, mi, s, us) \<Rightarrow> h < 24 \<and> mi < 60 \<and> s < 60 \<and> us < 1000000)"

definition valid_datetime :: "datetime \<Rightarrow> bool" where
  "valid_datetime ts = (valid_date (fst ts) \<and> valid_time (snd ts))"

text \<open>
  Adding and subtracting whole days (\<^verbatim>\<open>timedelta(days=n)\<close>, \<^verbatim>\<open>pd.DateOffset(days=n)\<close>)
  walks the calendar one day at a time and leaves the time of day alone.
\<close>

definition next_day :: "date \<Rightarrow> date" where
  "next_day dt = (case dt of (y, m, d) \<Rightarrow>
     if d < days_in_month y m then (y, m, d + 1)
     else if m < 12 then (y, m + 1, 1) else (y + 1, 1, 1))"

definition prev_day :: "date \<Rightarrow> date" where
  "prev_day dt = (case dt of (y, m, d) \<Rightarrow>
     if 1 < d then (y, m, d - 1)
     else if 1 < m then (y, m - 1, days_in_month y (m - 1)) else (y - 1, 12, 31))"

fun plus_days :: "date \<Rightarrow> nat \<Rightarrow> date" where
  "plus_days d 0 = d"
| "plus_days d (Suc n) = plus_days (next_day d) n"

fun minus_days :: "date \<Rightarrow> nat \<Rightarrow> date" where
  "minus_days d 0 = d"
| "minus_days d (Suc n) = minus_days (prev_day d) n"

definition add_days :: "datetime \<Rightarrow> int \<Rightarrow> datetime" where
  "add_days ts n =
     (if 0 \<le> n then (plus_days (fst ts) (nat n), snd ts)
      else (minus_days (fst ts) (nat (- n)), snd ts))"

text \<open>
  \<^verbatim>\<open>ts + pd.DateOffset(months=k)\<close>: the month moves by \<open>k\<close>, the day is cut down to the
  length of the month reached, the time of day stays.
\<close>

definition add_months :: "datetime \<Rightarrow> int \<Rightarrow> datetime" where
  "add_months ts k = (case ts of ((y, m, d), t) \<Rightarrow>
     let total = m - 1 + k;
         y' = y + total div 12;
         m' = total mod 12 + 1
     in ((y', m', min d (days_in_month y' m')), t))"

text \<open>\<^verbatim>\<open>ts.replace(day=1)\<close> and \<^verbatim>\<open>ts.replace(hour=h, minute=mi)\<close>\<close>

definition replace_day :: "datetime \<Rightarrow> int \<Rightarrow> datetime" where
  "replace_day ts d' = (case ts of ((y, m, d), t) \<Rightarrow> ((y, m, d'), t))"

definition replace_hour_minute :: "datetime \<Rightarrow> nat \<Rightarrow> nat \<Rightarrow> datetime" where
  "replace_hour_minute ts h' mi' = (case ts of (d, (h, mi, s, us)) \<Rightarrow> (d, (h', mi', s, us)))"

text \<open>
  The proleptic Gregorian ordinal of a date (\<^verbatim>\<open>date.toordinal()\<close>): the number of days up
  to and including it, counted from 0001-01-01 as day 1.
\<close>

definition days_before_year :: "int \<Rightarrow> int" where
  "days_before_year y = (y - 1) * 365 + (y - 1) div 4 - (y - 1) div 100 + (y - 1) div 400"

definition days_before_month :: "int \<Rightarrow> int \<Rightarrow> int" where
  "days_before_month y m =
     [0, 31, 59, 90, 120, 151, 181, 212, 243, 273, 304, 334] ! nat (m - 1)
       + (if 2 < m \<and> is_leap y then 1 else 0)"

definition toordinal :: "date \<Rightarrow> int" where
  "toordinal dt = (case dt of (y, m, d) \<Rightarrow> days_before_year y + days_before_month y m + d)"

text \<open>
  \<^verbatim>\<open>pd.date_range(start=s, end=e, freq='D')\<close>: the timestamps \<open>s\<close>, \<open>s\<close> + 1 day,
  \<open>s\<close> + 2 days, ... that are not later than \<open>e\<close>. There are as many as whole days fit
  between \<open>s\<close> and \<open>e\<close>, plus one; none when \<open>e\<close> is earlier than \<open>s\<close>.
\<close>

definition date_range_len :: "datetime \<Rightarrow> datetime \<Rightarrow> nat" where
  "date_range_len s e =
     nat (toordinal (fst e) - toordinal (fst s) + (if snd s \<le> snd e then 1 else 0))"

definition date_range :: "datetime \<Rightarrow> datetime \<Rightarrow> datetime list" where
  "date_range s e = map (\<lambda>k. add_days s (int k)) [0..<date_range_len s e]"


section \<open>Numbers, strings and random draws\<close>

text \<open>
  Floating-point numbers are idealised as reals with exact arithmetic. \<^verbatim>\<open>round(x, 2)\<close>
  is the nearest multiple of one hundredth, a tie going to the even neighbour.
\<close>

definition round_half_even :: "real \<Rightarrow> int" where
  "round_half_even x =
     (let f = \<lfloor>x\<rfloor>; r = x - of_int f
      in if r < 1 / 2 then f else if 1 / 2 < r then f + 1 else if even f then f else f + 1)"

definition round2 :: "real \<Rightarrow> real" where
  "round2 x = of_int (round_half_even (x * 100)) / 100"

text \<open>\<^verbatim>\<open>str(n)\<close>, \<^verbatim>\<open>f"{n:0w}"\<close> and \<^verbatim>\<open>int(s)\<close> for a number that is not negative.\<close>

definition digit_char :: "nat \<Rightarrow> char" where
  "digit_char n = ''0123456789'' ! n"

definition digit_val :: "char \<Rightarrow> nat" where
  "digit_val c = of_char c - 48"

fun str_nat :: "nat \<Rightarrow> string" where
  "str_nat n = (if n < 10 then [digit_char n] else str_nat (n div 10) @ [digit_char (n mod 10)])"

declare str_nat.simps [simp del]

definition zero_pad :: "nat \<Rightarrow> nat \<Rightarrow> string" where
  "zero_pad w n = replicate (w - length (str_nat n)) (CHR ''0'') @ str_nat n"

definition int_of_str :: "string \<Rightarrow> nat" where
  "int_of_str s = foldl (\<lambda>a c. 10 * a + digit_val c) 0 s"

text \<open>\<^verbatim>\<open>s.split(c)\<close>\<close>

fun split_on :: "char \<Rightarrow> string \<Rightarrow> string list" where
  "split_on c [] = [[]]"
| "split_on c (x # xs) =
     (if x = c then [] # split_on c xs
      else (case split_on c xs of [] \<Rightarrow> [[x]] | w # ws \<Rightarrow> (x # w) # ws))"

text \<open>
  The outcomes of the random number generators and of Faker are an input of the model:
  one field for every place of the program that draws, indexed by the loop counters of
  that place. An integer or categorical draw is a raw number that the drawing function
  brings into its range; a real draw is the value drawn. The theorems hold for every
  value of this record, hence for every run.
\<close>

record draws =
  customer_type_draw :: "nat \<Rightarrow> nat"
  account_status_draw :: "nat \<Rightarrow> nat"
  num_contracts_draw :: "nat \<Rightarrow> nat"
  service_type_draw :: "nat \<Rightarrow> nat \<Rightarrow> nat"
  tariff_plan_draw :: "nat \<Rightarrow> nat \<Rightarrow> nat"
  contract_status_draw :: "nat \<Rightarrow> nat \<Rightarrow> nat"
  anomaly_sample_draw :: "nat \<Rightarrow> nat"
  anomaly_set_order :: "nat \<Rightarrow> nat"
  normal_draw :: "real \<Rightarrow> real \<Rightarrow> nat \<Rightarrow> nat \<Rightarrow> real"
  spike_factor_draw :: "nat \<Rightarrow> nat \<Rightarrow> real"
  generation_draw :: "nat \<Rightarrow> nat \<Rightarrow> real"
  hour_draw :: "nat \<Rightarrow> nat \<Rightarrow> nat"
  minute_draw :: "nat \<Rightarrow> nat \<Rightarrow> nat"
  case_sample_draw :: "nat \<Rightarrow> nat"
  case_set_order :: "nat \<Rightarrow> nat"
  num_cases_draw :: "nat \<Rightarrow> nat"
  case_date_draw :: "nat \<Rightarrow> nat \<Rightarrow> date"
  case_offset_draw :: "nat \<Rightarrow> nat \<Rightarrow> nat"
  issue_type_draw :: "nat \<Rightarrow> nat \<Rightarrow> nat"
  resolution_status_draw :: "nat \<Rightarrow> nat \<Rightarrow> nat"

text \<open>\<^verbatim>\<open>random.choice(xs)\<close> and \<^verbatim>\<open>random.choices(xs, weights=..., k=1)[0]\<close>\<close>

definition choice :: "'a list \<Rightarrow> nat \<Rightarrow> 'a" where
  "choice xs r = xs ! (r mod length xs)"

text \<open>\<^verbatim>\<open>random.randint(lo, hi)\<close>, both ends included.\<close>

definition randint :: "nat \<Rightarrow> nat \<Rightarrow> nat \<Rightarrow> nat" where
  "randint lo hi r = lo + r mod (hi - lo + 1)"

text \<open>
  \<^verbatim>\<open>random.sample(xs, k)\<close>: \<open>k\<close> elements drawn without replacement. Both calls of the
  program ask for at most \<open>length xs\<close> elements, so the \<^verbatim>\<open>ValueError\<close> of a larger
  request does not occur.
\<close>

fun random_sample :: "(nat \<Rightarrow> nat) \<Rightarrow> 'a list \<Rightarrow> nat \<Rightarrow> 'a list" where
  "random_sample r xs 0 = []"
| "random_sample r xs (Suc k) =
     (if xs = [] then []
      else let j = r k mod length xs
           in xs ! j # random_sample r (take j xs @ drop (Suc j) xs) k)"

text \<open>
  The order in which Python iterates over a set is fixed by the hashes of its members and
  is the same for every iteration over one set: some arrangement of the distinct members,
  chosen by the draws \<open>h\<close>.
\<close>

definition iteration_order :: "(nat \<Rightarrow> nat) \<Rightarrow> 'a list \<Rightarrow> 'a list" where
  "iteration_order h xs = random_sample h (remdups xs) (length (remdups xs))"

text \<open>
  A sequential id: every loop body builds its row from the current value of the counter
  and advances the counter once per appended row, so the row appended at position \<open>p\<close>
  is built from the counter's first value plus \<open>p\<close>.
\<close>

fun number_from :: "nat \<Rightarrow> (nat \<Rightarrow> 'a) list \<Rightarrow> 'a list" where
  "number_from n [] = []"
| "number_from n (f # fs) = f n # number_from (Suc n) fs"

text \<open>\<^verbatim>\<open>enumerate(xs)\<close>\<close>

definition enumerate_list :: "'a list \<Rightarrow> (nat \<times> 'a) list" where
  "enumerate_list xs = zip [0..<length xs] xs"

datatype py_error = KeyError string


section \<open>The generator\<close>

text \<open>
  \<^verbatim>\<open>generate_energy_provider_data(session, num_customers, start_date, end_date)\<close> fills
  five tables, one after the other, and hands them to the session. Every variable of the
  function is a definition below, under its own name, as a function of the draws and of
  the arguments it depends on. Of the columns, those that Faker fills (names, e-mail,
  address, city, postal code, join date, contract start and end date) are left out: no
  later stage reads them.
\<close>

definition TARIFF_RATE_KWH :: real where
  "TARIFF_RATE_KWH = 0.35"

definition BASE_MONTHLY_FEE :: real where
  "BASE_MONTHLY_FEE = 5.50"

subsection \<open>1. CUSTOMERS\<close>

record customer =
  CUSTOMER_ID :: string
  CUSTOMER_TYPE :: string
  ACCOUNT_STATUS :: string

definition customer_ids :: "int \<Rightarrow> string list" where
  "customer_ids num_customers =
     map (\<lambda>i. ''CID_'' @ zero_pad 6 (1001 + i)) [0..<nat num_customers]"

definition customers_data :: "draws \<Rightarrow> int \<Rightarrow> customer list" where
  "customers_data rnd num_customers =
     map (\<lambda>(i, customer_id).
            \<lparr>CUSTOMER_ID = customer_id,
             CUSTOMER_TYPE = choice [''residential'', ''commercial''] (customer_type_draw rnd i),
             ACCOUNT_STATUS =
               choice [''active'', ''suspended'', ''canceled''] (account_status_draw rnd i)\<rparr>)
         (enumerate_list (customer_ids num_customers))"

subsection \<open>2. SERVICE_CONTRACTS\<close>

record contract =
  CONTRACT_ID :: string
  CONTRACT_CUSTOMER_ID :: string
  SERVICE_TYPE :: string
  TARIFF_PLAN :: string
  STATUS :: string

text \<open>
  The inner loop over the contract slots of customer number \<open>i\<close>; \<open>services\<close> holds the
  service types this customer already has, and a slot that draws one of them is skipped.
\<close>

fun contract_slots ::
  "draws \<Rightarrow> nat \<Rightarrow> string \<Rightarrow> string set \<Rightarrow> nat list \<Rightarrow> (nat \<Rightarrow> contract) list" where
  "contract_slots rnd i customer_id services [] = []"
| "contract_slots rnd i customer_id services (j # js) =
     (let service_type =
            choice [''electricity'', ''gas'', ''solar panel lease''] (service_type_draw rnd i j)
      in if service_type \<in> services then contract_slots rnd i customer_id services js
         else (\<lambda>contract_id_counter.
                 \<lparr>CONTRACT_ID = ''CON_'' @ zero_pad 7 contract_id_counter,
                  CONTRACT_CUSTOMER_ID = customer_id,
                  SERVICE_TYPE = service_type,
                  TARIFF_PLAN =
                    choice [''Green Fix'', ''Energy Plus Variable'', ''Basic Home'']
                      (tariff_plan_draw rnd i j),
                  STATUS =
                    choice [''active'', ''pending renewal'', ''expired'']
                      (contract_status_draw rnd i j)\<rparr>)
              # contract_slots rnd i customer_id (insert service_type services) js)"

definition contracts_data :: "draws \<Rightarrow> int \<Rightarrow> contract list" where
  "contracts_data rnd num_customers =
     number_from 5001
       (concat (map (\<lambda>(i, customer_id).
                       let num_contracts = choice [1, 2] (num_contracts_draw rnd i)
                       in contract_slots rnd i customer_id {} [0..<num_contracts])
                    (enumerate_list (map CUSTOMER_ID (customers_data rnd num_customers)))))"

subsection \<open>3. SMART_METER_READINGS\<close>

record reading =
  READING_ID :: string
  READING_CUSTOMER_ID :: string
  METER_ID :: string
  TIMESTAMP :: datetime
  KWH_CONSUMPTION :: real
  KW_GENERATION :: real

definition solar_customers :: "draws \<Rightarrow> int \<Rightarrow> string set" where
  "solar_customers rnd num_customers =
     set (map CONTRACT_CUSTOMER_ID
            (filter (\<lambda>c. SERVICE_TYPE c = ''solar panel lease'') (contracts_data rnd num_customers)))"

definition all_residential_ids :: "draws \<Rightarrow> int \<Rightarrow> string list" where
  "all_residential_ids rnd num_customers =
     map CUSTOMER_ID
       (filter (\<lambda>c. CUSTOMER_TYPE c = ''residential'') (customers_data rnd num_customers))"

text \<open>The sample that \<^verbatim>\<open>anomaly_customers\<close> is the set of.\<close>

definition anomaly_sample :: "draws \<Rightarrow> int \<Rightarrow> string list" where
  "anomaly_sample rnd num_customers =
     random_sample (anomaly_sample_draw rnd) (all_residential_ids rnd num_customers)
       (min 15 (length (all_residential_ids rnd num_customers)))"

definition anomaly_customers :: "draws \<Rightarrow> int \<Rightarrow> string set" where
  "anomaly_customers rnd num_customers = set (anomaly_sample rnd num_customers)"

definition anomaly_spike_date :: datetime where
  "anomaly_spike_date = midnight (2025, 8, 15)"

text \<open>
  \<^verbatim>\<open>customers_df.set_index('CUSTOMER_ID')['CUSTOMER_TYPE'].to_dict()\<close>; of two rows with
  one id the later one would win.
\<close>

definition customer_types :: "draws \<Rightarrow> int \<Rightarrow> string \<rightharpoonup> string" where
  "customer_types rnd num_customers =
     map_of (rev (map (\<lambda>c. (CUSTOMER_ID c, CUSTOMER_TYPE c)) (customers_data rnd num_customers)))"

text \<open>\<^verbatim>\<open>int(customer_id.split('_')[1])\<close>\<close>

definition customer_numeric_id :: "string \<Rightarrow> nat" where
  "customer_numeric_id customer_id = int_of_str (split_on (CHR ''_'') customer_id ! 1)"

text \<open>
  The body of the loop over the days, for customer number \<open>i\<close> and day number \<open>k\<close> of the
  range. The dictionary \<open>types\<close> has an entry for every customer of the loop, which runs
  over its keys.
\<close>

definition reading_row ::
  "draws \<Rightarrow> string set \<Rightarrow> string set \<Rightarrow> (string \<rightharpoonup> string) \<Rightarrow> nat \<times> string \<Rightarrow>
   nat \<times> datetime \<Rightarrow> nat \<Rightarrow> reading" where
  "reading_row rnd solar anomaly types ic kd reading_id_counter =
     (case ic of (i, customer_id) \<Rightarrow> case kd of (k, dy) \<Rightarrow>
      let customer_numeric_id = customer_numeric_id customer_id;
          meter_id = ''MTR-'' @ str_nat (customer_numeric_id + 12345);
          cust_type = (case types customer_id of Some t \<Rightarrow> t | None \<Rightarrow> []);
          base_consumption =
            (if cust_type = ''commercial'' then normal_draw rnd 75 10 i k
             else normal_draw rnd 10 3 i k);
          kwh_consumption =
            (if customer_id \<in> anomaly \<and>
                add_days anomaly_spike_date (- 2) \<le> dy \<and> dy \<le> add_days anomaly_spike_date 2
             then base_consumption * spike_factor_draw rnd i k
             else base_consumption);
          kw_generation =
            (if customer_id \<in> solar \<and> month dy \<in> {6, 7, 8} then generation_draw rnd i k
             else 0)
      in \<lparr>READING_ID = ''RID_'' @ zero_pad 8 reading_id_counter,
          READING_CUSTOMER_ID = customer_id,
          METER_ID = meter_id,
          TIMESTAMP =
            replace_hour_minute dy (randint 0 23 (hour_draw rnd i k))
              (randint 0 59 (minute_draw rnd i k)),
          KWH_CONSUMPTION = round2 (max 0 kwh_consumption),
          KW_GENERATION = round2 (max 0 kw_generation)\<rparr>)"

definition readings_data :: "draws \<Rightarrow> int \<Rightarrow> datetime \<Rightarrow> datetime \<Rightarrow> reading list" where
  "readings_data rnd num_customers start_date end_date =
     number_from 100001
       (concat (map (\<lambda>ic.
                       map (reading_row rnd (solar_customers rnd num_customers)
                              (anomaly_customers rnd num_customers)
                              (customer_types rnd num_customers) ic)
                           (enumerate_list (date_range start_date end_date)))
                    (enumerate_list (map CUSTOMER_ID (customers_data rnd num_customers)))))"

subsection \<open>4. BILLING\<close>

record invoice =
  INVOICE_ID :: string
  INVOICE_CUSTOMER_ID :: string
  INVOICE_DATE :: date
  DUE_DATE :: date
  AMOUNT_DUE :: real
  PAYMENT_STATUS :: string
  CONSUMPTION_PERIOD_START :: date
  CONSUMPTION_PERIOD_END :: date

text \<open>\<^verbatim>\<open>set(list(anomaly_customers)[:7])\<close>\<close>

definition overdue_customers :: "draws \<Rightarrow> int \<Rightarrow> string set" where
  "overdue_customers rnd num_customers =
     set (take 7 (iteration_order (anomaly_set_order rnd) (anomaly_sample rnd num_customers)))"

definition num_months :: "datetime \<Rightarrow> datetime \<Rightarrow> int" where
  "num_months start_date end_date =
     (year end_date - year start_date) * 12 + (month end_date - month start_date) + 1"

text \<open>
  The selection of the readings of one customer between two timestamps, and the sum of
  their consumption.
\<close>

definition monthly_consumption :: "reading list \<Rightarrow> string \<Rightarrow> datetime \<Rightarrow> datetime \<Rightarrow> real" where
  "monthly_consumption readings customer_id period_start period_end =
     sum_list (map KWH_CONSUMPTION
       (filter (\<lambda>r. READING_CUSTOMER_ID r = customer_id \<and>
                     period_start \<le> TIMESTAMP r \<and> TIMESTAMP r \<le> period_end) readings))"

text \<open>
  The body of the loop over \<^verbatim>\<open>range(num_months)\<close> for one customer: \<open>None\<close> where the
  body leaves through \<^verbatim>\<open>continue\<close>, else the row it appends.
\<close>

definition invoice_row ::
  "reading list \<Rightarrow> string set \<Rightarrow> datetime \<Rightarrow> datetime \<Rightarrow> string \<Rightarrow> int \<Rightarrow>
   (nat \<Rightarrow> invoice) option" where
  "invoice_row readings overdue start_date end_date customer_id month_offset =
     (let period_start = add_months start_date month_offset
      in if end_date < period_start then None
         else
           let period_start = replace_day period_start 1;
               period_end = add_days (add_months period_start 1) (- 1);
               period_end = min period_end end_date;
               amount =
                 round2 (monthly_consumption readings customer_id period_start period_end
                           * TARIFF_RATE_KWH + BASE_MONTHLY_FEE);
               invoice_date = date_of (add_days period_end 5);
               status =
                 (if month period_start = month end_date \<and> year period_start = year end_date
                  then ''pending''
                  else if customer_id \<in> overdue \<and> month period_start = 8 then ''overdue''
                  else ''paid'')
           in Some (\<lambda>invoice_id_counter.
                \<lparr>INVOICE_ID = ''INV_'' @ zero_pad 7 invoice_id_counter,
                 INVOICE_CUSTOMER_ID = customer_id,
                 INVOICE_DATE = invoice_date,
                 DUE_DATE = plus_days invoice_date 14,
                 AMOUNT_DUE = amount,
                 PAYMENT_STATUS = status,
                 CONSUMPTION_PERIOD_START = date_of period_start,
                 CONSUMPTION_PERIOD_END = date_of period_end\<rparr>))"

definition billing_rows ::
  "reading list \<Rightarrow> string set \<Rightarrow> datetime \<Rightarrow> datetime \<Rightarrow> string list \<Rightarrow> (nat \<Rightarrow> invoice) list" where
  "billing_rows readings overdue start_date end_date ids =
     concat (map (\<lambda>customer_id.
                    List.map_filter (invoice_row readings overdue start_date end_date customer_id)
                      (map int [0..<nat (num_months start_date end_date)]))
                 ids)"

text \<open>
  A data frame built from an empty list has no columns, and selecting a column of it
  raises \<^verbatim>\<open>KeyError\<close>. For the readings that happens in the first run of the loop body
  that gets as far as the selection.
\<close>

definition billing_data :: "draws \<Rightarrow> int \<Rightarrow> datetime \<Rightarrow> datetime \<Rightarrow> py_error + invoice list" where
  "billing_data rnd num_customers start_date end_date =
     (let readings = readings_data rnd num_customers start_date end_date;
          rows = billing_rows readings (overdue_customers rnd num_customers) start_date end_date
                   (map CUSTOMER_ID (customers_data rnd num_customers))
      in if readings = [] \<and> rows \<noteq> [] then Inl (KeyError ''CUSTOMER_ID'')
         else Inr (number_from 80001 rows))"

subsection \<open>5. CUSTOMER_SUPPORT_CASES\<close>

record support_case =
  CASE_ID :: string
  CASE_CUSTOMER_ID :: string
  CASE_DATE :: date
  ISSUE_TYPE :: string
  RESOLUTION_STATUS :: string
  DESCRIPTION :: string

text \<open>
  \<^verbatim>\<open>int(num_customers * 0.2)\<close> cuts the product off towards zero; the stage is reached
  with a positive \<open>num_customers\<close> only.
\<close>

definition customers_for_cases :: "draws \<Rightarrow> int \<Rightarrow> string list" where
  "customers_for_cases rnd num_customers =
     iteration_order (case_set_order rnd)
       (random_sample (case_sample_draw rnd) (customer_ids num_customers)
          (nat \<lfloor>real_of_int num_customers * 0.2\<rfloor>)
        @ anomaly_sample rnd num_customers
        @ take 7 (iteration_order (anomaly_set_order rnd) (anomaly_sample rnd num_customers)))"

text \<open>
  The body of the inner loop, for the customer at position \<open>p\<close> of the iteration and case
  number \<open>j\<close> of that customer.
\<close>

definition case_row ::
  "draws \<Rightarrow> string set \<Rightarrow> string set \<Rightarrow> nat \<times> string \<Rightarrow> nat \<Rightarrow> nat \<Rightarrow> support_case" where
  "case_row rnd anomaly overdue pc j case_id_counter =
     (case pc of (p, customer_id) \<Rightarrow>
      let case_date_obj = case_date_draw rnd p j;
          (issue_type, description, case_date_obj) =
            (if customer_id \<in> anomaly then
               (''billing inquiry'',
                ''Customer inquired about unexpectedly high bill for August.'',
                date_of (add_days anomaly_spike_date
                           (int (15 + randint 1 5 (case_offset_draw rnd p j)))))
             else if customer_id \<in> overdue then
               (''billing inquiry'',
                ''Follow-up call regarding overdue payment for August invoice.'',
                date_of (add_days anomaly_spike_date
                           (int (30 + randint 1 5 (case_offset_draw rnd p j)))))
             else
               (choice [''service outage'', ''meter reading issue'', ''tariff plan query'']
                  (issue_type_draw rnd p j),
                ''Customer called with a general query about their service.'',
                case_date_obj))
      in \<lparr>CASE_ID = ''CAS_'' @ zero_pad 6 case_id_counter,
          CASE_CUSTOMER_ID = customer_id,
          CASE_DATE = case_date_obj,
          ISSUE_TYPE = issue_type,
          RESOLUTION_STATUS =
            choice [''closed'', ''open'', ''escalated''] (resolution_status_draw rnd p j),
          DESCRIPTION = description\<rparr>)"

definition case_rows ::
  "draws \<Rightarrow> string set \<Rightarrow> string set \<Rightarrow> string list \<Rightarrow> (nat \<Rightarrow> support_case) list" where
  "case_rows rnd anomaly overdue ids =
     concat (map (\<lambda>pc.
                    let num_cases = randint 1 2 (num_cases_draw rnd (fst pc))
                    in map (case_row rnd anomaly overdue pc) [0..<num_cases])
                 (enumerate_list ids))"

definition cases_data :: "draws \<Rightarrow> int \<Rightarrow> support_case list" where
  "cases_data rnd num_customers =
     number_from 101
       (case_rows rnd (anomaly_customers rnd num_customers) (overdue_customers rnd num_customers)
          (customers_for_cases rnd num_customers))"

subsection \<open>The whole function\<close>

text \<open>
  The result is the five tables handed to \<^verbatim>\<open>session.write_pandas\<close>, or the exception
  that ends the run. Each of the tables whose date columns are converted after the loop
  raises \<^verbatim>\<open>KeyError\<close> on the first of these columns when the loop appended no row.
\<close>

record tables =
  customers_df :: "customer list"
  contracts_df :: "contract list"
  readings_df :: "reading list"
  billing_df :: "invoice list"
  support_cases_df :: "support_case list"

definition generate_energy_provider_data ::
  "draws \<Rightarrow> int \<Rightarrow> datetime \<Rightarrow> datetime \<Rightarrow> py_error + tables" where
  "generate_energy_provider_data rnd num_customers start_date end_date =
     (if customers_data rnd num_customers = [] then Inl (KeyError ''JOIN_DATE'')
      else if contracts_data rnd num_customers = [] then Inl (KeyError ''START_DATE'')
      else case billing_data rnd num_customers start_date end_date of
             Inl e \<Rightarrow> Inl e
           | Inr billing \<Rightarrow>
               if billing = [] then Inl (KeyError ''INVOICE_DATE'')
               else if cases_data rnd num_customers = [] then Inl (KeyError ''CASE_DATE'')
               else Inr \<lparr>customers_df = customers_data rnd num_customers,
                         contracts_df = contracts_data rnd num_customers,
                         readings_df = readings_data rnd num_customers start_date end_date,
                         billing_df = billing,
                         support_cases_df = cases_data rnd num_customers\<rparr>)"

section \<open>Two example runs\<close>

text \<open>
  Concrete draws and the tables they lead to, used where a property is checked on a run.
\<close>

definition rnd0 :: draws where
  "rnd0 = \<lparr>customer_type_draw = (\<lambda>_. 0), account_status_draw = (\<lambda>_. 0),
     num_contracts_draw = (\<lambda>_. 0), service_type_draw = (\<lambda>_ _. 2),
     tariff_plan_draw = (\<lambda>_ _. 0), contract_status_draw = (\<lambda>_ _. 0),
     anomaly_sample_draw = (\<lambda>_. 0), anomaly_set_order = (\<lambda>_. 0),
     normal_draw = (\<lambda>_ _ _ _. 10), spike_factor_draw = (\<lambda>_ _. 6),
     generation_draw = (\<lambda>_ _. 2), hour_draw = (\<lambda>_ _. 12), minute_draw = (\<lambda>_ _. 30),
     case_sample_draw = (\<lambda>_. 0), case_set_order = (\<lambda>_. 0), num_cases_draw = (\<lambda>_. 0),
     case_date_draw = (\<lambda>_ _. (2025, 8, 30)), case_offset_draw = (\<lambda>_ _. 0),
     issue_type_draw = (\<lambda>_ _. 0), resolution_status_draw = (\<lambda>_ _. 0)\<rparr>"

text \<open>The same draws, but every customer is drawn commercial.\<close>

definition commercial_draws :: draws where
  "commercial_draws = rnd0\<lparr>customer_type_draw := (\<lambda>_. 1)\<rparr>"

definition example_readings :: "reading list" where
  "example_readings =
     [\<lparr>READING_ID = ''RID_00100001'', READING_CUSTOMER_ID = ''CID_001001'',
       METER_ID = ''MTR-13346'', TIMESTAMP = ((2025, 8, 30), 12, 30, 0, 0),
       KWH_CONSUMPTION = 10, KW_GENERATION = 2\<rparr>,
      \<lparr>READING_ID = ''RID_00100002'', READING_CUSTOMER_ID = ''CID_001001'',
       METER_ID = ''MTR-13346'', TIMESTAMP = ((2025, 8, 31), 12, 30, 0, 0),
       KWH_CONSUMPTION = 10, KW_GENERATION = 2\<rparr>]"

definition example_billing :: "invoice list" where
  "example_billing =
     [\<lparr>INVOICE_ID = ''INV_0080001'', INVOICE_CUSTOMER_ID = ''CID_001001'',
       INVOICE_DATE = (2025, 9, 5), DUE_DATE = (2025, 9, 19),
       AMOUNT_DUE = 9, PAYMENT_STATUS = ''pending'',
       CONSUMPTION_PERIOD_START = (2025, 8, 1),
       CONSUMPTION_PERIOD_END = (2025, 8, 31)\<rparr>]"

definition example_cases :: "support_case list" where
  "example_cases =
     [\<lparr>CASE_ID = ''CAS_000101'', CASE_CUSTOMER_ID = ''CID_001001'',
       CASE_DATE = (2025, 8, 31), ISSUE_TYPE = ''billing inquiry'',
       RESOLUTION_STATUS = ''closed'',
       DESCRIPTION = ''Customer inquired about unexpectedly high bill for August.''\<rparr>]"

definition example_tables :: tables where
  "example_tables =
     \<lparr>customers_df =
        [\<lparr>CUSTOMER_ID = ''CID_001001'', CUSTOMER_TYPE = ''residential'',
          ACCOUNT_STATUS = ''active''\<rparr>],
      contracts_df =
        [\<lparr>CONTRACT_ID = ''CON_0005001'', CONTRACT_CUSTOMER_ID = ''CID_001001'',
          SERVICE_TYPE = ''solar panel lease'', TARIFF_PLAN = ''Green Fix'',
          STATUS = ''active''\<rparr>],
      readings_df = example_readings,
      billing_df = example_billing,
      support_cases_df = example_cases\<rparr>"

definition example2_readings :: "reading list" where
  "example2_readings =
     [\<lparr>READING_ID = ''RID_00100001'', READING_CUSTOMER_ID = ''CID_001001'',
       METER_ID = ''MTR-13346'', TIMESTAMP = ((2025, 7, 31), 12, 30, 0, 0),
       KWH_CONSUMPTION = 10, KW_GENERATION = 2\<rparr>,
      \<lparr>READING_ID = ''RID_00100002'', READING_CUSTOMER_ID = ''CID_001001'',
       METER_ID = ''MTR-13346'', TIMESTAMP = ((2025, 8, 1), 12, 30, 0, 0),
       KWH_CONSUMPTION = 10, KW_GENERATION = 2\<rparr>]"

definition example2_billing :: "invoice list" where
  "example2_billing =
     [\<lparr>INVOICE_ID = ''INV_0080001'', INVOICE_CUSTOMER_ID = ''CID_001001'',
       INVOICE_DATE = (2025, 8, 5), DUE_DATE = (2025, 8, 19),
       AMOUNT_DUE = 5.5, PAYMENT_STATUS = ''paid'',
       CONSUMPTION_PERIOD_START = (2025, 7, 1),
       CONSUMPTION_PERIOD_END = (2025, 7, 31)\<rparr>]"

definition example2_tables :: tables where
  "example2_tables =
     \<lparr>customers_df =
        [\<lparr>CUSTOMER_ID = ''CID_001001'', CUSTOMER_TYPE = ''residential'',
          ACCOUNT_STATUS = ''active''\<rparr>],
      contracts_df =
        [\<lparr>CONTRACT_ID = ''CON_0005001'', CONTRACT_CUSTOMER_ID = ''CID_001001'',
          SERVICE_TYPE = ''solar panel lease'', TARIFF_PLAN = ''Green Fix'',
          STATUS = ''active''\<rparr>],
      readings_df = example2_readings,
      billing_df = example2_billing,
      support_cases_df = example_cases\<rparr>"

text \<open>
  The amount that C1 states for an invoice: the fee for the sum \<open>S\<close> of the consumption of
  the customer's readings whose calendar day lies in the consumption period.
\<close>

definition claimed_amount_due :: "reading list \<Rightarrow> invoice \<Rightarrow> real" where
  "claimed_amount_due readings iv =
     round2 (0.35 *
       sum_list (map KWH_CONSUMPTION
         (filter (\<lambda>r. READING_CUSTOMER_ID r = INVOICE_CUSTOMER_ID iv \<and>
                       CONSUMPTION_PERIOD_START iv \<le> date_of (TIMESTAMP r) \<and>
                       date_of (TIMESTAMP r) \<le> CONSUMPTION_PERIOD_END iv) readings))
       + 5.50)"

text \<open>The invoices of a customer whose consumption period lies in month \<open>m\<close> of year \<open>y\<close>.\<close>

definition invoices_in_month :: "invoice list \<Rightarrow> string \<Rightarrow> int \<Rightarrow> int \<Rightarrow> invoice list" where
  "invoices_in_month billing customer_id y m =
     filter (\<lambda>iv. INVOICE_CUSTOMER_ID iv = customer_id \<and>
                   (y, m, 1) \<le> CONSUMPTION_PERIOD_START iv \<and>
                   CONSUMPTION_PERIOD_END iv \<le> (y, m, days_in_month y m)) billing"

text \<open>The invoices of a customer whose consumption period covers day \<open>d\<close>.\<close>

definition invoices_covering :: "invoice list \<Rightarrow> string \<Rightarrow> date \<Rightarrow> invoice list" where
  "invoices_covering billing customer_id d =
     filter (\<lambda>iv. INVOICE_CUSTOMER_ID iv = customer_id \<and>
                   CONSUMPTION_PERIOD_START iv \<le> d \<and> d \<le> CONSUMPTION_PERIOD_END iv) billing"

section \<open>Facts about the calendar\<close>

lemma div_step:
  assumes k: "0 < (k::int)"
  shows "y div k = (y - 1) div k + (if y mod k = 0 then 1 else 0)"
proof -
  have y: "y = k * (y div k) + y mod k" by simp
  show ?thesis
  proof (cases "y mod k = 0")
    case True
    then have "y - 1 = k * (y div k - 1) + (k - 1)" using y by (simp add: algebra_simps)
    moreover have "0 \<le> k - 1" "k - 1 < k" using k by auto
    ultimately have "(y - 1) div k = y div k - 1"
      by (metis div_pos_pos_trivial add.commute div_mult_self2 k less_irrefl add_cancel_left_right)
    with True show ?thesis by simp
  next
    case False
    have "0 \<le> y mod k" "y mod k < k" using k by auto
    with False have r: "0 \<le> y mod k - 1" "y mod k - 1 < k" by auto
    have "y - 1 = k * (y div k) + (y mod k - 1)" using y by simp
    with r have "(y - 1) div k = y div k"
      by (metis div_pos_pos_trivial add.commute div_mult_self2 k less_irrefl add_cancel_left_right)
    with False show ?thesis by simp
  qed
qed

lemma mod_400_100: "(y::int) mod 400 = 0 \<Longrightarrow> y mod 100 = 0"
proof -
  assume "y mod 400 = 0"
  then have "400 dvd y" by (simp add: mod_eq_0_iff_dvd)
  moreover have "(100::int) dvd 400" by simp
  ultimately have "100 dvd y" by (rule dvd_trans [rotated])
  then show ?thesis by (simp add: mod_eq_0_iff_dvd)
qed

lemma mod_100_4: "(y::int) mod 100 = 0 \<Longrightarrow> y mod 4 = 0"
proof -
  assume "y mod 100 = 0"
  then have "100 dvd y" by (simp add: mod_eq_0_iff_dvd)
  moreover have "(4::int) dvd 100" by simp
  ultimately have "4 dvd y" by (rule dvd_trans [rotated])
  then show ?thesis by (simp add: mod_eq_0_iff_dvd)
qed

lemma days_before_year_Suc:
  "days_before_year (y + 1) = days_before_year y + (if is_leap y then 366 else 365)"
proof -
  define a where "a = (if y mod 4 = 0 then 1 else 0::int)"
  define b where "b = (if y mod 100 = 0 then 1 else 0::int)"
  define c where "c = (if y mod 400 = 0 then 1 else 0::int)"
  have A: "y div 4 = (y - 1) div 4 + a" unfolding a_def by (rule div_step) simp
  have B: "y div 100 = (y - 1) div 100 + b" unfolding b_def by (rule div_step) simp
  have C: "y div 400 = (y - 1) div 400 + c" unfolding c_def by (rule div_step) simp
  have L: "(if is_leap y then 366 else 365) = 365 + a - b + c"
    using mod_400_100 [of y] mod_100_4 [of y]
    unfolding is_leap_def a_def b_def c_def
    by (cases "y mod 4 = 0"; cases "y mod 100 = 0"; cases "y mod 400 = 0") simp_all
  have "days_before_year (y + 1) = y * 365 + y div 4 - y div 100 + y div 400"
    unfolding days_before_year_def by simp
  also have "\<dots> = days_before_year y + (365 + a - b + c)"
    unfolding days_before_year_def A B C by (simp add: algebra_simps)
  finally show ?thesis using L by simp
qed

lemma days_before_year_mono: "y \<le> y' \<Longrightarrow> days_before_year y \<le> days_before_year y'"
proof (induction y' rule: int_ge_induct)
  case base
  show ?case by simp
next
  case (step i)
  have "days_before_year i \<le> days_before_year (i + 1)"
    by (simp add: days_before_year_Suc)
  with step show ?case by simp
qed

lemma month_cases:
  assumes "1 \<le> m" "m \<le> (12::int)"
  obtains "m = 1" | "m = 2" | "m = 3" | "m = 4" | "m = 5" | "m = 6"
    | "m = 7" | "m = 8" | "m = 9" | "m = 10" | "m = 11" | "m = 12"
proof -
  from assms have "m = 1 \<or> m = 2 \<or> m = 3 \<or> m = 4 \<or> m = 5 \<or> m = 6
      \<or> m = 7 \<or> m = 8 \<or> m = 9 \<or> m = 10 \<or> m = 11 \<or> m = 12"
    by presburger
  with that show ?thesis by blast
qed

lemma days_in_month_bounds: "28 \<le> days_in_month y m" "days_in_month y m \<le> 31"
  by (simp_all add: days_in_month_def)

lemma days_before_month_Suc:
  assumes "1 \<le> m" "m < 12"
  shows "days_before_month y (m + 1) = days_before_month y m + days_in_month y m"
proof -
  from assms have "1 \<le> m" "m \<le> 12" by simp_all
  then show ?thesis using assms(2)
    by (cases m rule: month_cases) (simp_all add: days_before_month_def days_in_month_def)
qed

lemma days_before_month_nonneg: "1 \<le> m \<Longrightarrow> m \<le> 12 \<Longrightarrow> 0 \<le> days_before_month y m"
  by (cases m rule: month_cases) (simp_all add: days_before_month_def)

lemma days_before_month_12: "days_before_month y 12 + 31 = (if is_leap y then 366 else 365)"
  by (simp add: days_before_month_def)

lemma days_before_month_mono:
  assumes "1 \<le> m" "m \<le> m'" "m' \<le> 12"
  shows "days_before_month y m \<le> days_before_month y m'"
  using assms(2,1,3)
proof (induction m' rule: int_ge_induct)
  case base
  show ?case by simp
next
  case (step i)
  then have "days_before_month y (i + 1) = days_before_month y i + days_in_month y i"
    by (intro days_before_month_Suc) simp_all
  moreover have "0 \<le> days_in_month y i" using days_in_month_bounds(1) [of y i] by simp
  ultimately show ?case using step by simp
qed

lemma days_before_month_end:
  assumes "1 \<le> m" "m \<le> 12"
  shows "days_before_month y m + days_in_month y m \<le> (if is_leap y then 366 else 365)"
  using assms
  by (cases m rule: month_cases) (simp_all add: days_before_month_def days_in_month_def)

lemma valid_next_day: "valid_date d \<Longrightarrow> valid_date (next_day d)"
proof -
  assume v: "valid_date d"
  obtain y m dd where d: "d = (y, m, dd)" by (cases d) auto
  have "1 \<le> days_in_month y' m'" for y' m'
    using days_in_month_bounds(1) [of y' m'] by simp
  with v show ?thesis
    by (simp add: d valid_date_def next_day_def)
qed

lemma toordinal_next_day:
  assumes "valid_date dt"
  shows "toordinal (next_day dt) = toordinal dt + 1"
proof -
  obtain y m d where dt: "dt = (y, m, d)" by (cases dt) auto
  from assms dt have v: "1 \<le> m" "m \<le> 12" "1 \<le> d" "d \<le> days_in_month y m"
    by (simp_all add: valid_date_def)
  show ?thesis
  proof (cases "d < days_in_month y m")
    case True
    then show ?thesis by (simp add: dt next_day_def toordinal_def)
  next
    case False
    with v have d: "d = days_in_month y m" by simp
    show ?thesis
    proof (cases "m < 12")
      case True
      with v d show ?thesis
        by (simp add: dt next_day_def toordinal_def days_before_month_Suc)
    next
      case False
      with v have m: "m = 12" by simp
      have "days_in_month y 12 = 31" by (simp add: days_in_month_def)
      moreover have "days_before_month (y + 1) 1 = 0" by (simp add: days_before_month_def)
      ultimately show ?thesis
        using d m days_before_month_12 [of y] days_before_year_Suc [of y]
        by (simp add: dt next_day_def toordinal_def)
    qed
  qed
qed

lemma toordinal_less:
  assumes "valid_date a" "valid_date b" "a < b"
  shows "toordinal a < toordinal b"
proof -
  obtain y m d where a: "a = (y, m, d)" by (cases a) auto
  obtain y' m' d' where b: "b = (y', m', d')" by (cases b) auto
  from assms a have va: "1 \<le> m" "m \<le> 12" "1 \<le> d" "d \<le> days_in_month y m"
    by (simp_all add: valid_date_def)
  from assms b have vb: "1 \<le> m'" "m' \<le> 12" "1 \<le> d'" "d' \<le> days_in_month y' m'"
    by (simp_all add: valid_date_def)
  from assms(3) a b have "y < y' \<or> (y = y' \<and> m < m') \<or> (y = y' \<and> m = m' \<and> d < d')"
    by (auto simp: less_prod_def)
  then consider "y < y'" | "y = y'" "m < m'" | "y = y'" "m = m'" "d < d'"
    by blast
  then show ?thesis
  proof cases
    case 1
    have "days_before_month y m + d \<le> (if is_leap y then 366 else 365)"
      using days_before_month_end [OF va(1,2), of y] va(4) by simp
    then have "toordinal a \<le> days_before_year (y + 1)"
      by (simp add: a toordinal_def days_before_year_Suc)
    also have "\<dots> \<le> days_before_year y'"
      using 1 by (intro days_before_year_mono) simp
    also have "\<dots> < toordinal b"
      using days_before_month_nonneg [OF vb(1,2), of y'] vb(3) by (simp add: b toordinal_def)
    finally show ?thesis .
  next
    case 2
    have "days_before_month y m + d \<le> days_before_month y m + days_in_month y m"
      using va(4) by simp
    also have "\<dots> = days_before_month y (m + 1)"
      using va(1) 2(2) vb(2) by (intro days_before_month_Suc [symmetric]) simp_all
    also have "\<dots> \<le> days_before_month y m'"
      using va(1) 2(2) vb(2) by (intro days_before_month_mono) simp_all
    finally show ?thesis using 2(1) vb(3) by (simp add: a b toordinal_def)
  next
    case 3
    then show ?thesis by (simp add: a b toordinal_def)
  qed
qed

lemma toordinal_less_iff:
  assumes "valid_date a" "valid_date b"
  shows "toordinal a < toordinal b \<longleftrightarrow> a < b"
proof
  assume "a < b"
  with assms show "toordinal a < toordinal b" by (rule toordinal_less)
next
  assume l: "toordinal a < toordinal b"
  show "a < b"
  proof (rule ccontr)
    assume "\<not> a < b"
    then have "b < a \<or> b = a" by auto
    then show False
    proof
      assume "b < a"
      with assms have "toordinal b < toordinal a" by (intro toordinal_less)
      with l show False by simp
    next
      assume "b = a"
      with l show False by simp
    qed
  qed
qed

lemma toordinal_inj:
  assumes "valid_date a" "valid_date b" "toordinal a = toordinal b"
  shows "a = b"
proof (rule ccontr)
  assume "a \<noteq> b"
  then have "a < b \<or> b < a" by auto
  with assms toordinal_less [of a b] toordinal_less [of b a] show False by auto
qed

lemma toordinal_le_iff:
  assumes "valid_date a" "valid_date b"
  shows "toordinal a \<le> toordinal b \<longleftrightarrow> a \<le> b"
  using toordinal_less_iff [OF assms(2,1)] by (simp add: not_less [symmetric])

lemma valid_plus_days: "valid_date d \<Longrightarrow> valid_date (plus_days d n)"
  by (induction n arbitrary: d) (simp_all add: valid_next_day)

lemma toordinal_plus_days: "valid_date d \<Longrightarrow> toordinal (plus_days d n) = toordinal d + int n"
proof (induction n arbitrary: d)
  case 0
  show ?case by simp
next
  case (Suc n)
  then show ?case by (simp add: valid_next_day toordinal_next_day)
qed

lemma plus_days_reaches:
  assumes "valid_date a" "valid_date b" "a \<le> b"
  shows "plus_days a (nat (toordinal b - toordinal a)) = b"
proof -
  have le: "toordinal a \<le> toordinal b"
    using assms by (simp add: toordinal_le_iff)
  have "toordinal (plus_days a (nat (toordinal b - toordinal a))) = toordinal b"
    using le by (simp add: toordinal_plus_days assms(1))
  then show ?thesis
    by (intro toordinal_inj) (simp_all add: valid_plus_days assms)
qed

lemma plus_days_add: "plus_days d (m + n) = plus_days (plus_days d m) n"
  by (induction m arbitrary: d) simp_all

lemma plus_days_numeral: "plus_days d (numeral k) = plus_days (next_day d) (pred_numeral k)"
  by (simp add: numeral_eq_Suc)

lemma minus_days_numeral: "minus_days d (numeral k) = minus_days (prev_day d) (pred_numeral k)"
  by (simp add: numeral_eq_Suc)

section \<open>Facts about strings, lists and draws\<close>

lemma digit_val_digit_char: "n < 10 \<Longrightarrow> digit_val (digit_char n) = n"
proof -
  assume "n < 10"
  then have "n = 0 \<or> n = 1 \<or> n = 2 \<or> n = 3 \<or> n = 4 \<or> n = 5 \<or> n = 6 \<or> n = 7 \<or> n = 8 \<or> n = 9"
    by arith
  then show ?thesis
    by (elim disjE) (simp_all add: digit_val_def digit_char_def)
qed

lemma digit_char_in: "n < 10 \<Longrightarrow> digit_char n \<in> set ''0123456789''"
  unfolding digit_char_def by (rule nth_mem) simp

lemma int_of_str_snoc: "int_of_str (s @ [c]) = 10 * int_of_str s + digit_val c"
  by (simp add: int_of_str_def)

lemma int_of_str_str_nat: "int_of_str (str_nat n) = n"
proof (induction n rule: str_nat.induct)
  case (1 n)
  show ?case
  proof (cases "n < 10")
    case True
    then show ?thesis
      by (subst str_nat.simps) (simp add: int_of_str_def digit_val_digit_char)
  next
    case False
    with "1.IH" have "int_of_str (str_nat (n div 10)) = n div 10" by simp
    with False show ?thesis
      by (subst str_nat.simps) (simp add: int_of_str_snoc digit_val_digit_char)
  qed
qed

lemma str_nat_inj: "str_nat m = str_nat n \<Longrightarrow> m = n"
  by (metis int_of_str_str_nat)

lemma set_str_nat: "set (str_nat n) \<subseteq> set ''0123456789''"
proof (induction n rule: str_nat.induct)
  case (1 n)
  show ?case
  proof (cases "n < 10")
    case True
    then show ?thesis
      using digit_char_in [of n] by (subst str_nat.simps) simp
  next
    case False
    with "1.IH" have "set (str_nat (n div 10)) \<subseteq> set ''0123456789''" by simp
    moreover have "digit_char (n mod 10) \<in> set ''0123456789''"
      by (rule digit_char_in) simp
    ultimately show ?thesis using False
      by (subst str_nat.simps) simp
  qed
qed

lemma int_of_str_zeros: "int_of_str (replicate k (CHR ''0'') @ s) = int_of_str s"
proof -
  have "foldl (\<lambda>a c. 10 * a + digit_val c) 0 (replicate k (CHR ''0'')) = 0"
    by (induction k) (simp_all add: digit_val_def)
  then show ?thesis by (simp add: int_of_str_def)
qed

lemma int_of_str_zero_pad: "int_of_str (zero_pad w n) = n"
  by (simp add: zero_pad_def int_of_str_zeros int_of_str_str_nat)

lemma set_zero_pad: "set (zero_pad w n) \<subseteq> set ''0123456789''"
  using set_str_nat [of n] by (auto simp: zero_pad_def)

lemma split_on_absent: "c \<notin> set s \<Longrightarrow> split_on c s = [s]"
  by (induction s) auto

lemma customer_numeric_id_CID:
  "customer_numeric_id (''CID_'' @ zero_pad 6 n) = n"
proof -
  have "CHR ''_'' \<notin> set (zero_pad 6 n)"
    using set_zero_pad [of 6 n] by auto
  then have "split_on (CHR ''_'') (zero_pad 6 n) = [zero_pad 6 n]"
    by (rule split_on_absent)
  then have "split_on (CHR ''_'') (''CID_'' @ zero_pad 6 n) = [''CID'', zero_pad 6 n]"
    by simp
  then show ?thesis
    by (simp add: customer_numeric_id_def int_of_str_zero_pad)
qed

lemma length_customer_ids: "length (customer_ids n) = nat n"
  by (simp add: customer_ids_def)

lemma nth_customer_ids:
  "i < nat n \<Longrightarrow> customer_ids n ! i = ''CID_'' @ zero_pad 6 (1001 + i)"
  by (simp add: customer_ids_def)

lemma customer_ids_numeric:
  "i < nat n \<Longrightarrow> customer_numeric_id (customer_ids n ! i) = 1001 + i"
  using customer_numeric_id_CID [of "1001 + i"] by (simp only: nth_customer_ids)

lemma distinct_customer_ids: "distinct (customer_ids n)"
proof -
  have "inj_on (\<lambda>i. ''CID_'' @ zero_pad 6 (1001 + i)) (set [0..<nat n])"
  proof (rule inj_onI)
    fix i j
    assume "''CID_'' @ zero_pad 6 (1001 + i) = ''CID_'' @ zero_pad 6 (1001 + j)"
    then have "int_of_str (zero_pad 6 (1001 + i)) = int_of_str (zero_pad 6 (1001 + j))"
      by simp
    then show "i = j" by (simp add: int_of_str_zero_pad)
  qed
  then show ?thesis
    by (simp add: customer_ids_def distinct_map)
qed

lemma map_snd_enumerate_list: "map snd (enumerate_list xs) = xs"
  by (simp add: enumerate_list_def)

lemma length_enumerate_list: "length (enumerate_list xs) = length xs"
  by (simp add: enumerate_list_def)

lemma enumerate_list_map: "enumerate_list xs = map (\<lambda>i. (i, xs ! i)) [0..<length xs]"
  by (rule nth_equalityI) (simp_all add: enumerate_list_def)

lemma set_enumerate_list: "(i, x) \<in> set (enumerate_list xs) \<longleftrightarrow> i < length xs \<and> xs ! i = x"
proof -
  have "set (enumerate_list xs) = (\<lambda>i. (i, xs ! i)) ` {0..<length xs}"
    by (simp only: enumerate_list_map set_map set_upt)
  then show ?thesis by auto
qed

lemma customers_data_ids: "map CUSTOMER_ID (customers_data rnd n) = customer_ids n"
proof -
  have "map CUSTOMER_ID (customers_data rnd n) = map snd (enumerate_list (customer_ids n))"
    by (simp add: customers_data_def case_prod_beta)
  then show ?thesis by (simp add: map_snd_enumerate_list)
qed

lemma customers_data_Nil: "customers_data rnd n = [] \<longleftrightarrow> n \<le> 0"
  by (simp add: customers_data_def enumerate_list_def customer_ids_def)

lemma length_number_from: "length (number_from n fs) = length fs"
  by (induction fs arbitrary: n) simp_all

lemma number_from_Nil: "number_from n fs = [] \<longleftrightarrow> fs = []"
  by (cases fs) simp_all

lemma set_number_from: "x \<in> set (number_from n fs) \<Longrightarrow> \<exists>f \<in> set fs. \<exists>m. x = f m"
  by (induction fs arbitrary: n) auto

lemma nth_number_from: "p < length fs \<Longrightarrow> number_from n fs ! p = (fs ! p) (n + p)"
proof (induction fs arbitrary: n p)
  case Nil
  then show ?case by simp
next
  case (Cons f fs)
  then show ?case by (cases p) simp_all
qed

lemma map_number_from:
  assumes "\<And>f m. f \<in> set fs \<Longrightarrow> g (f m) = h f"
  shows "map g (number_from n fs) = map h fs"
  using assms by (induction fs arbitrary: n) simp_all

lemma set_random_sample: "set (random_sample r xs k) \<subseteq> set xs"
proof (induction k arbitrary: xs)
  case 0
  show ?case by simp
next
  case (Suc k)
  show ?case
  proof (cases "xs = []")
    case True
    then show ?thesis by simp
  next
    case False
    define j where "j = r k mod length xs"
    from False have j: "j < length xs" by (simp add: j_def)
    have "set (take j xs @ drop (Suc j) xs) \<subseteq> set xs"
      using set_take_subset [of j xs] set_drop_subset [of "Suc j" xs] by auto
    with Suc.IH [of "take j xs @ drop (Suc j) xs"]
    have "set (random_sample r (take j xs @ drop (Suc j) xs) k) \<subseteq> set xs" by blast
    with j False show ?thesis
      by (simp add: Let_def j_def [symmetric])
  qed
qed

lemma length_random_sample: "k \<le> length xs \<Longrightarrow> length (random_sample r xs k) = k"
proof (induction k arbitrary: xs)
  case 0
  show ?case by simp
next
  case (Suc k)
  then have ne: "xs \<noteq> []" by auto
  define j where "j = r k mod length xs"
  from ne have j: "j < length xs" by (simp add: j_def)
  with Suc.prems have "k \<le> length (take j xs @ drop (Suc j) xs)" by simp
  with Suc.IH have "length (random_sample r (take j xs @ drop (Suc j) xs) k) = k" by blast
  with ne show ?case by (simp add: Let_def j_def [symmetric])
qed

lemma distinct_random_sample: "distinct xs \<Longrightarrow> distinct (random_sample r xs k)"
proof (induction k arbitrary: xs)
  case 0
  show ?case by simp
next
  case (Suc k)
  show ?case
  proof (cases "xs = []")
    case True
    then show ?thesis by simp
  next
    case False
    define j where "j = r k mod length xs"
    define ys where "ys = take j xs @ drop (Suc j) xs"
    from False have j: "j < length xs" by (simp add: j_def)
    have xs: "xs = take j xs @ xs ! j # drop (Suc j) xs"
      using j by (simp add: id_take_nth_drop)
    from Suc.prems xs have d: "distinct (take j xs @ xs ! j # drop (Suc j) xs)" by simp
    then have "distinct ys" and "xs ! j \<notin> set ys" by (auto simp: ys_def)
    moreover have "set (random_sample r ys k) \<subseteq> set ys" by (rule set_random_sample)
    ultimately have "distinct (random_sample r ys k)" "xs ! j \<notin> set (random_sample r ys k)"
      using Suc.IH [of ys] by auto
    with False show ?thesis by (simp add: Let_def j_def [symmetric] ys_def [symmetric])
  qed
qed

lemma set_iteration_order: "set (iteration_order h xs) = set xs"
proof -
  define ys where "ys = remdups xs"
  define zs where "zs = random_sample h ys (length ys)"
  have "distinct zs" unfolding zs_def ys_def by (rule distinct_random_sample) simp
  moreover have "length zs = length ys" unfolding zs_def by (rule length_random_sample) simp
  moreover have "distinct ys" by (simp add: ys_def)
  ultimately have "card (set zs) = card (set ys)" by (simp add: distinct_card)
  moreover have "set zs \<subseteq> set ys" unfolding zs_def by (rule set_random_sample)
  ultimately have "set zs = set ys" by (intro card_subset_eq) simp_all
  then show ?thesis by (simp add: iteration_order_def zs_def ys_def)
qed

lemma distinct_iteration_order: "distinct (iteration_order h xs)"
  unfolding iteration_order_def by (rule distinct_random_sample) simp

lemma round_half_even_nonneg: "0 \<le> x \<Longrightarrow> 0 \<le> round_half_even x"
proof -
  assume "0 \<le> x"
  then have "0 \<le> \<lfloor>x\<rfloor>" by simp
  then show ?thesis by (simp add: round_half_even_def Let_def)
qed

lemma round2_nonneg: "0 \<le> x \<Longrightarrow> 0 \<le> round2 x"
  by (simp add: round2_def round_half_even_nonneg)

lemma round2_0: "round2 0 = 0"
  by (simp add: round2_def round_half_even_def)

lemma replicate_numeral: "replicate (numeral k) x = x # replicate (pred_numeral k) x"
  by (simp add: numeral_eq_Suc)

lemmas str_nat_numeral =
  str_nat.simps [of "numeral k" for k] str_nat.simps [of 0] str_nat.simps [of 1]
  str_nat.simps [of "Suc 0"]

lemmas upt_numeral = upt_rec [of _ "numeral k" for k]

lemmas string_eval = zero_pad_def str_nat_numeral digit_char_def replicate_numeral

lemmas date_eval = midnight_def add_days_def add_months_def replace_day_def
  replace_hour_minute_def date_of_def year_def month_def day_def next_day_def prev_day_def
  days_in_month_def is_leap_def plus_days_numeral minus_days_numeral Let_def

lemma rnd0_fields:
  "customer_type_draw rnd0 = (\<lambda>_. 0)" "account_status_draw rnd0 = (\<lambda>_. 0)"
  "num_contracts_draw rnd0 = (\<lambda>_. 0)" "service_type_draw rnd0 = (\<lambda>_ _. 2)"
  "tariff_plan_draw rnd0 = (\<lambda>_ _. 0)" "contract_status_draw rnd0 = (\<lambda>_ _. 0)"
  "anomaly_sample_draw rnd0 = (\<lambda>_. 0)" "anomaly_set_order rnd0 = (\<lambda>_. 0)"
  "normal_draw rnd0 = (\<lambda>_ _ _ _. 10)" "spike_factor_draw rnd0 = (\<lambda>_ _. 6)"
  "generation_draw rnd0 = (\<lambda>_ _. 2)" "hour_draw rnd0 = (\<lambda>_ _. 12)"
  "minute_draw rnd0 = (\<lambda>_ _. 30)" "case_sample_draw rnd0 = (\<lambda>_. 0)"
  "case_set_order rnd0 = (\<lambda>_. 0)" "num_cases_draw rnd0 = (\<lambda>_. 0)"
  "case_date_draw rnd0 = (\<lambda>_ _. (2025, 8, 30))" "case_offset_draw rnd0 = (\<lambda>_ _. 0)"
  "issue_type_draw rnd0 = (\<lambda>_ _. 0)" "resolution_status_draw rnd0 = (\<lambda>_ _. 0)"
  by (simp_all add: rnd0_def)

lemma ex_ids: "customer_ids 1 = [''CID_001001'']"
  by (simp add: customer_ids_def string_eval)

lemma ex_customers: "customers_data rnd0 1 =
        [\<lparr>CUSTOMER_ID = ''CID_001001'', CUSTOMER_TYPE = ''residential'',
            ACCOUNT_STATUS = ''active''\<rparr>]"
  by (simp add: customers_data_def ex_ids enumerate_list_def choice_def rnd0_fields)

lemma ex_contracts: "contracts_data rnd0 1 = 
          [\<lparr>CONTRACT_ID = ''CON_0005001'',
              CONTRACT_CUSTOMER_ID = ''CID_001001'',
              SERVICE_TYPE = ''solar panel lease'',
              TARIFF_PLAN = ''Green Fix'', STATUS = ''active''\<rparr>]"
  by (simp add: contracts_data_def ex_customers enumerate_list_def choice_def rnd0_fields string_eval)

lemma ex_solar: "solar_customers rnd0 1 = {''CID_001001''}"
  by (simp add: solar_customers_def ex_contracts)

lemma ex_residential: "all_residential_ids rnd0 1 = [''CID_001001'']"
  by (simp add: all_residential_ids_def ex_customers)

lemma ex_anomaly_sample: "anomaly_sample rnd0 1 = [''CID_001001'']"
  by (simp add: anomaly_sample_def ex_residential numeral_eq_Suc)

lemma ex_anomaly: "anomaly_customers rnd0 1 = {''CID_001001''}"
  by (simp add: anomaly_customers_def ex_anomaly_sample)

lemma ex_overdue: "overdue_customers rnd0 1 = {''CID_001001''}"
  by (simp add: overdue_customers_def ex_anomaly_sample iteration_order_def)

lemma ex_types: "customer_types rnd0 1 = [''CID_001001'' \<mapsto> ''residential'']"
  by (simp add: customer_types_def ex_customers)

lemma ex_toordinal: "toordinal (2025, 8, 31) - toordinal (2025, 8, 30) = 1"
  by (simp add: toordinal_def days_before_month_def)

lemma ex_date_range:
  "date_range (midnight (2025, 8, 30)) (midnight (2025, 8, 31)) =
     [midnight (2025, 8, 30), midnight (2025, 8, 31)]"
  using ex_toordinal
  by (simp add: date_range_def date_range_len_def midnight_def add_days_def
      upt_numeral next_day_def days_in_month_def)

lemma ex_numeric_id: "customer_numeric_id ''CID_001001'' = 1001"
  using customer_numeric_id_CID [of 1001] by (simp add: string_eval)

lemma ex_meter: "str_nat 13346 = ''13346''"
  by (simp add: string_eval)

lemma round2_10: "round2 10 = 10" "round2 2 = 2" "round2 9 = 9"
  by (simp_all add: round2_def round_half_even_def)

lemma ex_reading_row_0:
  "reading_row rnd0 {''CID_001001''} {''CID_001001''} [''CID_001001'' \<mapsto> ''residential'']
     (0, ''CID_001001'') (0, midnight (2025, 8, 30)) 100001 = example_readings ! 0"
  by (simp add: reading_row_def ex_numeric_id ex_meter rnd0_fields randint_def round2_10
      anomaly_spike_date_def date_eval example_readings_def string_eval)

lemma ex_reading_row_1:
  "reading_row rnd0 {''CID_001001''} {''CID_001001''} [''CID_001001'' \<mapsto> ''residential'']
     (0, ''CID_001001'') (Suc 0, midnight (2025, 8, 31)) 100002 = example_readings ! 1"
  by (simp add: reading_row_def ex_numeric_id ex_meter rnd0_fields randint_def round2_10
      anomaly_spike_date_def date_eval example_readings_def string_eval)

lemma ex_readings:
  "readings_data rnd0 1 (midnight (2025, 8, 30)) (midnight (2025, 8, 31)) = example_readings"
proof -
  have "readings_data rnd0 1 (midnight (2025, 8, 30)) (midnight (2025, 8, 31)) =
      [example_readings ! 0, example_readings ! 1]"
    using ex_reading_row_0 ex_reading_row_1
    by (simp add: readings_data_def ex_customers ex_solar ex_anomaly ex_types ex_date_range
        enumerate_list_def upt_numeral)
  then show ?thesis by (simp add: example_readings_def)
qed

lemma ex_num_months: "num_months (midnight (2025, 8, 30)) (midnight (2025, 8, 31)) = 1"
  by (simp add: num_months_def date_eval)

lemma ex_monthly_consumption:
  "monthly_consumption example_readings ''CID_001001'' (midnight (2025, 8, 1))
     (midnight (2025, 8, 31)) = 10"
  by (simp add: monthly_consumption_def example_readings_def midnight_def)

lemma ex_invoice_row:
  "invoice_row example_readings {''CID_001001''} (midnight (2025, 8, 30))
     (midnight (2025, 8, 31)) ''CID_001001'' 0 =
   Some (\<lambda>n. (example_billing ! 0)\<lparr>INVOICE_ID := ''INV_'' @ zero_pad 7 n\<rparr>)"
proof -
  have a: "add_months (midnight (2025, 8, 30)) 0 = midnight (2025, 8, 30)"
    by code_simp
  have b: "replace_day (midnight (2025, 8, 30)) 1 = midnight (2025, 8, 1)"
    by code_simp
  have c: "add_days (add_months (midnight (2025, 8, 1)) 1) (- 1) = midnight (2025, 8, 31)"
    by code_simp
  have d: "date_of (add_days (midnight (2025, 8, 31)) 5) = (2025, 9, 5)"
    by code_simp
  have e: "plus_days (2025, 9, 5) 14 = (2025, 9, 19)"
    by code_simp
  have f: "\<not> midnight (2025, 8, 31) < midnight (2025, 8, 30)"
    by (simp add: midnight_def)
  have g: "month (midnight (2025, 8, 1)) = 8" "year (midnight (2025, 8, 1)) = 2025"
    "month (midnight (2025, 8, 31)) = 8" "year (midnight (2025, 8, 31)) = 2025"
    "date_of (midnight (2025, 8, 1)) = (2025, 8, 1)" "date_of (midnight (2025, 8, 31)) = (2025, 8, 31)"
    by (simp_all add: date_eval)
  have h: "round2 (10 * TARIFF_RATE_KWH + BASE_MONTHLY_FEE) = 9"
    by (simp add: TARIFF_RATE_KWH_def BASE_MONTHLY_FEE_def round2_def round_half_even_def)
  show ?thesis
    unfolding invoice_row_def
    by (simp add: a b c d e f g h ex_monthly_consumption example_billing_def Let_def)
qed

lemma ex_billing_rows:
  "billing_rows example_readings {''CID_001001''} (midnight (2025, 8, 30))
     (midnight (2025, 8, 31)) [''CID_001001''] =
   [\<lambda>n. (example_billing ! 0)\<lparr>INVOICE_ID := ''INV_'' @ zero_pad 7 n\<rparr>]"
  by (simp add: billing_rows_def ex_num_months ex_invoice_row List.map_filter_def)

lemma ex_billing:
  "billing_data rnd0 1 (midnight (2025, 8, 30)) (midnight (2025, 8, 31)) = Inr example_billing"
proof -
  have ne: "example_readings \<noteq> []"
    by (simp add: example_readings_def)
  have zp: "zero_pad 7 80001 = ''0080001''"
    by (simp add: string_eval)
  show ?thesis
    by (simp add: billing_data_def ex_readings ex_overdue ex_customers ex_billing_rows ne zp,
        simp add: example_billing_def)
qed

lemma ex_customers_for_cases: "customers_for_cases rnd0 1 = [''CID_001001'']"
  by (simp add: customers_for_cases_def ex_ids ex_anomaly_sample iteration_order_def)

lemma ex_case_row:
  "case_row rnd0 {''CID_001001''} {''CID_001001''} (0, ''CID_001001'') 0 101 = example_cases ! 0"
  by (simp add: case_row_def rnd0_fields randint_def choice_def anomaly_spike_date_def
      date_eval example_cases_def string_eval)

lemma ex_cases: "cases_data rnd0 1 = example_cases"
proof -
  have "cases_data rnd0 1 = [example_cases ! 0]"
    using ex_case_row
    by (simp add: cases_data_def case_rows_def ex_anomaly ex_overdue ex_customers_for_cases
        enumerate_list_def rnd0_fields randint_def)
  then show ?thesis by (simp add: example_cases_def)
qed

lemma example_run:
  "generate_energy_provider_data rnd0 1 (midnight (2025, 8, 30)) (midnight (2025, 8, 31)) =
     Inr example_tables"
  by (simp add: generate_energy_provider_data_def ex_customers ex_contracts ex_readings
      ex_billing ex_cases example_tables_def, simp add: example_billing_def example_cases_def)

section \<open>The tables of a run\<close>

lemma generate_Inr:
  assumes "generate_energy_provider_data rnd n s e = Inr T"
  shows "customers_df T = customers_data rnd n"
    and "contracts_df T = contracts_data rnd n"
    and "readings_df T = readings_data rnd n s e"
    and "billing_data rnd n s e = Inr (billing_df T)"
    and "support_cases_df T = cases_data rnd n"
    and "0 < n"
    and "billing_df T \<noteq> []"
    and "support_cases_df T \<noteq> []"
  using assms
  by (auto simp: generate_energy_provider_data_def customers_data_Nil
      split: if_splits sum.splits)

lemma reading_row_fields:
  "READING_CUSTOMER_ID (reading_row rnd solar anomaly types (i, c) (k, dy) m) = c"
  "METER_ID (reading_row rnd solar anomaly types (i, c) (k, dy) m) =
     ''MTR-'' @ str_nat (customer_numeric_id c + 12345)"
  "TIMESTAMP (reading_row rnd solar anomaly types (i, c) (k, dy) m) =
     replace_hour_minute dy (randint 0 23 (hour_draw rnd i k)) (randint 0 59 (minute_draw rnd i k))"
  "KW_GENERATION (reading_row rnd solar anomaly types (i, c) (k, dy) m) =
     round2 (max 0 (if c \<in> solar \<and> month dy \<in> {6, 7, 8} then generation_draw rnd i k else 0))"
  by (simp_all add: reading_row_def Let_def)

lemma reading_row_nonneg:
  "0 \<le> KWH_CONSUMPTION (reading_row rnd solar anomaly types ic kd m)"
  "0 \<le> KW_GENERATION (reading_row rnd solar anomaly types ic kd m)"
  by (simp_all add: reading_row_def Let_def round2_nonneg split: prod.split)

lemma readings_dataE:
  assumes "r \<in> set (readings_data rnd n s e)"
  obtains i c k dy m where
    "i < nat n" "c = customer_ids n ! i"
    "k < length (date_range s e)" "dy = date_range s e ! k"
    "r = reading_row rnd (solar_customers rnd n) (anomaly_customers rnd n) (customer_types rnd n)
           (i, c) (k, dy) m"
proof -
  from assms obtain f m where f: "f \<in> set (concat (map (\<lambda>ic.
        map (reading_row rnd (solar_customers rnd n) (anomaly_customers rnd n)
               (customer_types rnd n) ic)
            (enumerate_list (date_range s e)))
        (enumerate_list (map CUSTOMER_ID (customers_data rnd n)))))" and r: "r = f m"
    unfolding readings_data_def by (blast dest: set_number_from)
  from f obtain ic kd where ic: "ic \<in> set (enumerate_list (customer_ids n))"
    and kd: "kd \<in> set (enumerate_list (date_range s e))"
    and f': "f = reading_row rnd (solar_customers rnd n) (anomaly_customers rnd n)
           (customer_types rnd n) ic kd"
    by (auto simp: customers_data_ids)
  obtain i c where ic': "ic = (i, c)" by (cases ic)
  obtain k dy where kd': "kd = (k, dy)" by (cases kd)
  from ic ic' have "i < nat n" "c = customer_ids n ! i"
    by (simp_all add: set_enumerate_list length_customer_ids)
  moreover from kd kd' have "k < length (date_range s e)" "dy = date_range s e ! k"
    by (simp_all add: set_enumerate_list)
  ultimately show ?thesis using that r f' ic' kd' by blast
qed

lemma month_replace_hour_minute: "month (replace_hour_minute ts h mi) = month ts"
  by (cases ts) (auto simp: month_def replace_hour_minute_def)

lemma date_of_replace_hour_minute: "date_of (replace_hour_minute ts h mi) = date_of ts"
  by (cases ts) (auto simp: date_of_def replace_hour_minute_def)

section \<open>Solar generation\<close>

text \<open>
  C8. A reading with a positive KW_GENERATION belongs to a customer with a solar panel
  lease among the contracts, and its month is June, July or August.
\<close>

theorem generation_needs_solar_and_summer:
  assumes "generate_energy_provider_data rnd n s e = Inr T"
    and "r \<in> set (readings_df T)"
    and "0 < KW_GENERATION r"
  shows "(\<exists>c \<in> set (contracts_df T).
            CONTRACT_CUSTOMER_ID c = READING_CUSTOMER_ID r \<and>
            SERVICE_TYPE c = ''solar panel lease'') \<and>
         month (TIMESTAMP r) \<in> {6, 7, 8}"
proof -
  from assms(1,2) have "r \<in> set (readings_data rnd n s e)"
    by (simp add: generate_Inr)
  then obtain i c k dy m where
    r: "r = reading_row rnd (solar_customers rnd n) (anomaly_customers rnd n)
              (customer_types rnd n) (i, c) (k, dy) m"
    by (rule readings_dataE)
  have cond: "c \<in> solar_customers rnd n \<and> month dy \<in> {6, 7, 8}"
  proof (rule ccontr)
    assume "\<not> ?thesis"
    then have "KW_GENERATION r = round2 (max 0 0)"
      unfolding r reading_row_fields by (simp only: if_False)
    with assms(3) show False by (simp add: round2_0)
  qed
  then obtain ct where "ct \<in> set (contracts_data rnd n)"
    "CONTRACT_CUSTOMER_ID ct = c" "SERVICE_TYPE ct = ''solar panel lease''"
    by (auto simp: solar_customers_def)
  moreover have "contracts_df T = contracts_data rnd n"
    using assms(1) by (rule generate_Inr)
  moreover have "READING_CUSTOMER_ID r = c" "month (TIMESTAMP r) = month dy"
    by (simp_all add: r reading_row_fields month_replace_hour_minute)
  ultimately show ?thesis using cond by auto
qed

theorem generation_needs_solar_and_summer_witness:
  "generate_energy_provider_data rnd0 1 (midnight (2025, 8, 30)) (midnight (2025, 8, 31)) =
     Inr example_tables \<and>
   example_readings ! 0 \<in> set (readings_df example_tables) \<and>
   0 < KW_GENERATION (example_readings ! 0) \<and>
   (\<exists>c \<in> set (contracts_df example_tables).
      CONTRACT_CUSTOMER_ID c = READING_CUSTOMER_ID (example_readings ! 0) \<and>
      SERVICE_TYPE c = ''solar panel lease'') \<and>
   month (TIMESTAMP (example_readings ! 0)) \<in> {6, 7, 8}"
proof -
  have a: "example_readings ! 0 \<in> set (readings_df example_tables)"
    by (simp add: example_tables_def example_readings_def)
  have b: "0 < KW_GENERATION (example_readings ! 0)"
    by (simp add: example_readings_def)
  from generation_needs_solar_and_summer [OF example_run a b] example_run a b
  show ?thesis by blast
qed

section \<open>Meter ids\<close>

text \<open>
  C10. The METER_ID of a reading is "MTR-" followed by the number in the customer's id
  plus 12345; that number is 1001 plus the position of the customer in the customers
  table; two readings carry the same METER_ID exactly when they belong to the same
  customer.
\<close>

theorem meter_id_of_customer:
  assumes "generate_energy_provider_data rnd n s e = Inr T"
    and "r \<in> set (readings_df T)"
    and "r' \<in> set (readings_df T)"
  shows "METER_ID r = ''MTR-'' @ str_nat (customer_numeric_id (READING_CUSTOMER_ID r) + 12345) \<and>
         (\<exists>i < length (customers_df T).
            CUSTOMER_ID (customers_df T ! i) = READING_CUSTOMER_ID r \<and>
            customer_numeric_id (READING_CUSTOMER_ID r) = 1001 + i) \<and>
         (METER_ID r = METER_ID r' \<longleftrightarrow> READING_CUSTOMER_ID r = READING_CUSTOMER_ID r')"
proof -
  from assms(1,2) have "r \<in> set (readings_data rnd n s e)"
    by (simp add: generate_Inr)
  then obtain i c k dy m where i: "i < nat n" and c: "c = customer_ids n ! i"
    and r: "r = reading_row rnd (solar_customers rnd n) (anomaly_customers rnd n)
              (customer_types rnd n) (i, c) (k, dy) m"
    by (rule readings_dataE)
  from assms(1,3) have "r' \<in> set (readings_data rnd n s e)"
    by (simp add: generate_Inr)
  then obtain i' c' k' dy' m' where i': "i' < nat n" and c': "c' = customer_ids n ! i'"
    and r': "r' = reading_row rnd (solar_customers rnd n) (anomaly_customers rnd n)
              (customer_types rnd n) (i', c') (k', dy') m'"
    by (rule readings_dataE)
  have cust: "map CUSTOMER_ID (customers_df T) = customer_ids n"
    using assms(1) by (simp add: generate_Inr customers_data_ids)
  then have len: "length (customers_df T) = nat n"
    using length_customer_ids [of n] length_map [of CUSTOMER_ID "customers_df T"] by simp
  have num: "customer_numeric_id c = 1001 + i" "customer_numeric_id c' = 1001 + i'"
    using i i' by (simp_all add: c c' customer_ids_numeric)
  have m1: "METER_ID r = ''MTR-'' @ str_nat (customer_numeric_id (READING_CUSTOMER_ID r) + 12345)"
    by (simp add: r reading_row_fields)
  have "CUSTOMER_ID (customers_df T ! i) = c"
    using i len nth_map [of i "customers_df T" CUSTOMER_ID] cust c by simp
  then have m2: "\<exists>i < length (customers_df T).
      CUSTOMER_ID (customers_df T ! i) = READING_CUSTOMER_ID r \<and>
      customer_numeric_id (READING_CUSTOMER_ID r) = 1001 + i"
    using i len num(1) by (auto simp: r reading_row_fields)
  have m3: "METER_ID r = METER_ID r' \<longleftrightarrow> READING_CUSTOMER_ID r = READING_CUSTOMER_ID r'"
  proof
    assume "METER_ID r = METER_ID r'"
    then have "str_nat (1001 + i + 12345) = str_nat (1001 + i' + 12345)"
      by (simp add: r r' reading_row_fields num)
    then have "i = i'" by (auto dest: str_nat_inj)
    then show "READING_CUSTOMER_ID r = READING_CUSTOMER_ID r'"
      by (simp add: r r' reading_row_fields c c')
  next
    assume "READING_CUSTOMER_ID r = READING_CUSTOMER_ID r'"
    then show "METER_ID r = METER_ID r'"
      by (simp add: r r' reading_row_fields)
  qed
  from m1 m2 m3 show ?thesis by blast
qed

theorem meter_id_of_customer_witness:
  "generate_energy_provider_data rnd0 1 (midnight (2025, 8, 30)) (midnight (2025, 8, 31)) =
     Inr example_tables \<and>
   example_readings ! 0 \<in> set (readings_df example_tables) \<and>
   example_readings ! 1 \<in> set (readings_df example_tables) \<and>
   METER_ID (example_readings ! 0) =
     ''MTR-'' @ str_nat (customer_numeric_id (READING_CUSTOMER_ID (example_readings ! 0)) + 12345) \<and>
   (\<exists>i < length (customers_df example_tables).
      CUSTOMER_ID (customers_df example_tables ! i) = READING_CUSTOMER_ID (example_readings ! 0) \<and>
      customer_numeric_id (READING_CUSTOMER_ID (example_readings ! 0)) = 1001 + i) \<and>
   (METER_ID (example_readings ! 0) = METER_ID (example_readings ! 1) \<longleftrightarrow>
      READING_CUSTOMER_ID (example_readings ! 0) = READING_CUSTOMER_ID (example_readings ! 1))"
proof -
  have a: "example_readings ! 0 \<in> set (readings_df example_tables)"
    by (simp add: example_tables_def example_readings_def)
  have b: "example_readings ! 1 \<in> set (readings_df example_tables)"
    by (simp add: example_tables_def example_readings_def)
  from meter_id_of_customer [OF example_run a b] example_run a b
  show ?thesis by blast
qed

section \<open>Anomaly and overdue customers, support cases\<close>

lemma distinct_all_residential_ids: "distinct (all_residential_ids rnd n)"
proof -
  have "distinct (map CUSTOMER_ID (customers_data rnd n))"
    by (simp add: customers_data_ids distinct_customer_ids)
  then show ?thesis
    unfolding all_residential_ids_def by (rule distinct_map_filter)
qed

lemma distinct_anomaly_sample: "distinct (anomaly_sample rnd n)"
  unfolding anomaly_sample_def
  by (rule distinct_random_sample) (rule distinct_all_residential_ids)

lemma length_anomaly_sample:
  "length (anomaly_sample rnd n) = min 15 (length (all_residential_ids rnd n))"
  unfolding anomaly_sample_def by (rule length_random_sample) simp

lemma anomaly_customers_residential:
  "anomaly_customers rnd n \<subseteq> set (all_residential_ids rnd n)"
  unfolding anomaly_customers_def anomaly_sample_def by (rule set_random_sample)

lemma overdue_subset_anomaly: "overdue_customers rnd n \<subseteq> anomaly_customers rnd n"
proof -
  have "set (take 7 (iteration_order (anomaly_set_order rnd) (anomaly_sample rnd n)))
      \<subseteq> set (iteration_order (anomaly_set_order rnd) (anomaly_sample rnd n))"
    by (rule set_take_subset)
  then show ?thesis
    by (simp add: overdue_customers_def anomaly_customers_def set_iteration_order)
qed

lemma length_iteration_order: "length (iteration_order h xs) = card (set xs)"
proof -
  have "length (iteration_order h xs) = length (remdups xs)"
    unfolding iteration_order_def by (rule length_random_sample) simp
  then show ?thesis by (simp add: length_remdups_card_conv)
qed

lemma card_overdue_customers:
  "card (overdue_customers rnd n) = min 7 (card (anomaly_customers rnd n))"
proof -
  have "distinct (take 7 (iteration_order (anomaly_set_order rnd) (anomaly_sample rnd n)))"
    by (rule distinct_take) (rule distinct_iteration_order)
  then have "card (overdue_customers rnd n) =
      length (take 7 (iteration_order (anomaly_set_order rnd) (anomaly_sample rnd n)))"
    unfolding overdue_customers_def by (rule distinct_card)
  then show ?thesis
    by (simp add: length_iteration_order anomaly_customers_def min.commute)
qed

lemma case_row_anomaly:
  assumes "c \<in> anomaly"
  shows "CASE_DATE (case_row rnd anomaly overdue (p, c) j m) =
           date_of (add_days anomaly_spike_date (int (15 + randint 1 5 (case_offset_draw rnd p j))))"
    and "DESCRIPTION (case_row rnd anomaly overdue (p, c) j m) =
           ''Customer inquired about unexpectedly high bill for August.''"
  using assms by (simp_all add: case_row_def)

lemma case_row_overdue:
  assumes "c \<notin> anomaly" "c \<in> overdue"
  shows "CASE_DATE (case_row rnd anomaly overdue (p, c) j m) =
           date_of (add_days anomaly_spike_date (int (30 + randint 1 5 (case_offset_draw rnd p j))))"
    and "DESCRIPTION (case_row rnd anomaly overdue (p, c) j m) =
           ''Follow-up call regarding overdue payment for August invoice.''"
  using assms by (simp_all add: case_row_def)

lemma case_row_general:
  assumes "c \<notin> anomaly" "c \<notin> overdue"
  shows "CASE_DATE (case_row rnd anomaly overdue (p, c) j m) = case_date_draw rnd p j"
    and "DESCRIPTION (case_row rnd anomaly overdue (p, c) j m) =
           ''Customer called with a general query about their service.''"
  using assms by (simp_all add: case_row_def)

lemma case_row_customer: "CASE_CUSTOMER_ID (case_row rnd anomaly overdue (p, c) j m) = c"
  by (simp add: case_row_def Let_def split: prod.split)

lemma randint_lower: "lo \<le> randint lo hi r"
  by (simp add: randint_def)

lemma randint_upper: "lo \<le> hi \<Longrightarrow> randint lo hi r \<le> hi"
proof -
  assume le: "lo \<le> hi"
  have "r mod (hi - lo + 1) < hi - lo + 1"
    by (rule mod_less_divisor) simp
  then have "r mod (hi - lo + 1) \<le> hi - lo" by simp
  with le show ?thesis unfolding randint_def by linarith
qed

lemma cases_dataE:
  assumes "sc \<in> set (cases_data rnd n)"
  obtains p c j m where
    "c \<in> set (customers_for_cases rnd n)"
    "sc = case_row rnd (anomaly_customers rnd n) (overdue_customers rnd n) (p, c) j m"
proof -
  from assms obtain f m where
    f: "f \<in> set (case_rows rnd (anomaly_customers rnd n) (overdue_customers rnd n)
                    (customers_for_cases rnd n))" and sc: "sc = f m"
    unfolding cases_data_def by (blast dest: set_number_from)
  from f obtain pc j where pc: "pc \<in> set (enumerate_list (customers_for_cases rnd n))"
    and f': "f = case_row rnd (anomaly_customers rnd n) (overdue_customers rnd n) pc j"
    by (auto simp: case_rows_def Let_def)
  obtain p c where pc': "pc = (p, c)" by (cases pc)
  from pc pc' have "c \<in> set (customers_for_cases rnd n)"
    by (auto simp: set_enumerate_list)
  with that sc f' pc' show ?thesis by blast
qed

text \<open>
  C9. The overdue customers are the first seven members of the anomaly set in its
  iteration order (all of them when there are at most seven), so they are anomaly
  customers and residential customers of the customers table. In the support cases no
  row comes from the overdue branch: every case of an overdue customer is written by the
  anomaly branch.
\<close>

theorem overdue_customers_are_anomaly_customers:
  assumes "generate_energy_provider_data rnd n s e = Inr T"
  shows "overdue_customers rnd n \<subseteq> anomaly_customers rnd n \<and>
         (\<exists>order. distinct order \<and> set order = anomaly_customers rnd n \<and>
            overdue_customers rnd n = set (take 7 order)) \<and>
         card (overdue_customers rnd n) = min 7 (card (anomaly_customers rnd n)) \<and>
         (card (anomaly_customers rnd n) \<le> 7 \<longrightarrow>
            overdue_customers rnd n = anomaly_customers rnd n) \<and>
         (\<forall>c \<in> overdue_customers rnd n. \<exists>cu \<in> set (customers_df T).
            CUSTOMER_ID cu = c \<and> CUSTOMER_TYPE cu = ''residential'') \<and>
         (\<forall>sc \<in> set (support_cases_df T).
            DESCRIPTION sc \<noteq> ''Follow-up call regarding overdue payment for August invoice.'' \<and>
            (CASE_CUSTOMER_ID sc \<in> overdue_customers rnd n \<longrightarrow>
               DESCRIPTION sc = ''Customer inquired about unexpectedly high bill for August.''))"
proof -
  let ?order = "iteration_order (anomaly_set_order rnd) (anomaly_sample rnd n)"
  have sub: "overdue_customers rnd n \<subseteq> anomaly_customers rnd n"
    by (rule overdue_subset_anomaly)
  have "distinct ?order \<and> set ?order = anomaly_customers rnd n \<and>
      overdue_customers rnd n = set (take 7 ?order)"
    by (simp add: distinct_iteration_order set_iteration_order anomaly_customers_def
        overdue_customers_def)
  then have ord: "\<exists>order. distinct order \<and> set order = anomaly_customers rnd n \<and>
      overdue_customers rnd n = set (take 7 order)"
    by blast
  have card: "card (overdue_customers rnd n) = min 7 (card (anomaly_customers rnd n))"
    by (rule card_overdue_customers)
  have all: "overdue_customers rnd n = anomaly_customers rnd n"
    if "card (anomaly_customers rnd n) \<le> 7"
  proof (rule card_subset_eq)
    show "finite (anomaly_customers rnd n)" by (simp add: anomaly_customers_def)
    show "overdue_customers rnd n \<subseteq> anomaly_customers rnd n" by (rule sub)
    show "card (overdue_customers rnd n) = card (anomaly_customers rnd n)"
      using card that by simp
  qed
  have res: "\<exists>cu \<in> set (customers_df T). CUSTOMER_ID cu = c \<and> CUSTOMER_TYPE cu = ''residential''"
    if "c \<in> overdue_customers rnd n" for c
  proof -
    from that sub anomaly_customers_residential [of rnd n]
    have "c \<in> set (all_residential_ids rnd n)" by blast
    then show ?thesis
      using assms by (auto simp: all_residential_ids_def generate_Inr)
  qed
  have cases: "DESCRIPTION sc \<noteq> ''Follow-up call regarding overdue payment for August invoice.'' \<and>
      (CASE_CUSTOMER_ID sc \<in> overdue_customers rnd n \<longrightarrow>
         DESCRIPTION sc = ''Customer inquired about unexpectedly high bill for August.'')"
    if "sc \<in> set (support_cases_df T)" for sc
  proof -
    from that assms have "sc \<in> set (cases_data rnd n)" by (simp add: generate_Inr)
    then obtain p c j m where
      sc: "sc = case_row rnd (anomaly_customers rnd n) (overdue_customers rnd n) (p, c) j m"
      by (rule cases_dataE)
    show ?thesis
    proof (cases "c \<in> anomaly_customers rnd n")
      case True
      then show ?thesis by (simp add: sc case_row_anomaly case_row_customer)
    next
      case False
      with sub have "c \<notin> overdue_customers rnd n" by blast
      with False show ?thesis by (simp add: sc case_row_general case_row_customer)
    qed
  qed
  from sub ord card all res cases show ?thesis by blast
qed

theorem overdue_customers_are_anomaly_customers_witness:
  "generate_energy_provider_data rnd0 1 (midnight (2025, 8, 30)) (midnight (2025, 8, 31)) =
     Inr example_tables \<and>
   ''CID_001001'' \<in> overdue_customers rnd0 1 \<and>
   ''CID_001001'' \<in> anomaly_customers rnd0 1 \<and>
   card (anomaly_customers rnd0 1) \<le> 7 \<and>
   overdue_customers rnd0 1 = anomaly_customers rnd0 1 \<and>
   (\<exists>cu \<in> set (customers_df example_tables).
      CUSTOMER_ID cu = ''CID_001001'' \<and> CUSTOMER_TYPE cu = ''residential'') \<and>
   example_cases ! 0 \<in> set (support_cases_df example_tables) \<and>
   CASE_CUSTOMER_ID (example_cases ! 0) \<in> overdue_customers rnd0 1 \<and>
   DESCRIPTION (example_cases ! 0) =
     ''Customer inquired about unexpectedly high bill for August.''"
proof -
  have a: "''CID_001001'' \<in> overdue_customers rnd0 1"
    by (simp add: ex_overdue)
  have b: "card (anomaly_customers rnd0 1) \<le> 7"
    by (simp add: ex_anomaly)
  have c: "example_cases ! 0 \<in> set (support_cases_df example_tables)"
    by (simp add: example_tables_def example_cases_def)
  have d: "CASE_CUSTOMER_ID (example_cases ! 0) \<in> overdue_customers rnd0 1"
    by (simp add: ex_overdue example_cases_def)
  from overdue_customers_are_anomaly_customers [OF example_run] example_run a b c d
  show ?thesis by blast
qed

text \<open>
  C6. A support case of an anomaly customer is dated between 15 and 20 days after the
  anomaly date. The loop body dates a case of a customer who is overdue and not an anomaly
  customer between 30 and 35 days after the anomaly date; for a customer who is both, it
  takes the anomaly branch.
\<close>

theorem support_case_dates:
  "(generate_energy_provider_data rnd n s e = Inr T \<and> sc \<in> set (support_cases_df T) \<and>
      CASE_CUSTOMER_ID sc \<in> anomaly_customers rnd n \<longrightarrow>
      (\<exists>k. 15 \<le> k \<and> k \<le> 20 \<and> CASE_DATE sc = date_of (add_days anomaly_spike_date k))) \<and>
   (c \<in> anomaly \<longrightarrow>
      (\<exists>k. 15 \<le> k \<and> k \<le> 20 \<and>
         CASE_DATE (case_row rnd anomaly overdue (p, c) j m) =
           date_of (add_days anomaly_spike_date k)) \<and>
      DESCRIPTION (case_row rnd anomaly overdue (p, c) j m) =
        ''Customer inquired about unexpectedly high bill for August.'') \<and>
   (c \<notin> anomaly \<and> c \<in> overdue \<longrightarrow>
      (\<exists>k. 30 \<le> k \<and> k \<le> 35 \<and>
         CASE_DATE (case_row rnd anomaly overdue (p, c) j m) =
           date_of (add_days anomaly_spike_date k)) \<and>
      DESCRIPTION (case_row rnd anomaly overdue (p, c) j m) =
        ''Follow-up call regarding overdue payment for August invoice.'')"
proof -
  have off: "1 \<le> randint 1 5 r \<and> randint 1 5 r \<le> 5" for r
    using randint_lower [of 1 5 r] randint_upper [of 1 5 r] by simp
  have anom: "\<exists>k. 15 \<le> k \<and> k \<le> 20 \<and>
      CASE_DATE (case_row rnd A ov (q, x) i l) = date_of (add_days anomaly_spike_date k)"
    if "x \<in> A" for A ov q x i l
  proof -
    let ?k = "int (15 + randint 1 5 (case_offset_draw rnd q i))"
    have "15 \<le> ?k \<and> ?k \<le> 20" using off [of "case_offset_draw rnd q i"] by simp
    moreover have "CASE_DATE (case_row rnd A ov (q, x) i l) =
        date_of (add_days anomaly_spike_date ?k)"
      using that by (rule case_row_anomaly)
    ultimately show ?thesis by blast
  qed
  have over: "\<exists>k. 30 \<le> k \<and> k \<le> 35 \<and>
      CASE_DATE (case_row rnd anomaly overdue (p, c) j m) =
        date_of (add_days anomaly_spike_date k)"
    if "c \<notin> anomaly" "c \<in> overdue"
  proof -
    let ?k = "int (30 + randint 1 5 (case_offset_draw rnd p j))"
    have "30 \<le> ?k \<and> ?k \<le> 35" using off [of "case_offset_draw rnd p j"] by simp
    moreover have "CASE_DATE (case_row rnd anomaly overdue (p, c) j m) =
        date_of (add_days anomaly_spike_date ?k)"
      using that by (rule case_row_overdue)
    ultimately show ?thesis by blast
  qed
  have table: "\<exists>k. 15 \<le> k \<and> k \<le> 20 \<and> CASE_DATE sc = date_of (add_days anomaly_spike_date k)"
    if g: "generate_energy_provider_data rnd n s e = Inr T"
      and sc: "sc \<in> set (support_cases_df T)"
      and a: "CASE_CUSTOMER_ID sc \<in> anomaly_customers rnd n"
  proof -
    from g sc have "sc \<in> set (cases_data rnd n)" by (simp add: generate_Inr)
    then obtain q x i l where
      row: "sc = case_row rnd (anomaly_customers rnd n) (overdue_customers rnd n) (q, x) i l"
      by (rule cases_dataE)
    with a have "x \<in> anomaly_customers rnd n" by (simp add: case_row_customer)
    then show ?thesis unfolding row by (rule anom)
  qed
  show ?thesis
    using table anom [of c anomaly overdue p j m] over
      case_row_anomaly(2) [of c anomaly rnd overdue p j m]
      case_row_overdue(2) [of c anomaly overdue rnd p j m]
    by blast
qed

theorem support_case_dates_witness:
  "generate_energy_provider_data rnd0 1 (midnight (2025, 8, 30)) (midnight (2025, 8, 31)) =
     Inr example_tables \<and>
   example_cases ! 0 \<in> set (support_cases_df example_tables) \<and>
   CASE_CUSTOMER_ID (example_cases ! 0) \<in> anomaly_customers rnd0 1 \<and>
   (\<exists>k. 15 \<le> k \<and> k \<le> 20 \<and>
      CASE_DATE (example_cases ! 0) = date_of (add_days anomaly_spike_date k)) \<and>
   ''CID_001001'' \<in> {''CID_001001''} \<and>
   (\<exists>k. 15 \<le> k \<and> k \<le> 20 \<and>
      CASE_DATE (case_row rnd0 {''CID_001001''} {''CID_001001''} (0, ''CID_001001'') 0 101) =
        date_of (add_days anomaly_spike_date k)) \<and>
   ''CID_001002'' \<notin> {''CID_001001''} \<and> ''CID_001002'' \<in> {''CID_001002''} \<and>
   (\<exists>k. 30 \<le> k \<and> k \<le> 35 \<and>
      CASE_DATE (case_row rnd0 {''CID_001001''} {''CID_001002''} (0, ''CID_001002'') 0 101) =
        date_of (add_days anomaly_spike_date k)) \<and>
   DESCRIPTION (case_row rnd0 {''CID_001001''} {''CID_001002''} (0, ''CID_001002'') 0 101) =
     ''Follow-up call regarding overdue payment for August invoice.''"
proof -
  have a: "example_cases ! 0 \<in> set (support_cases_df example_tables)"
    by (simp add: example_tables_def example_cases_def)
  have b: "CASE_CUSTOMER_ID (example_cases ! 0) \<in> anomaly_customers rnd0 1"
    by (simp add: ex_anomaly example_cases_def)
  have c: "''CID_001001'' \<in> {''CID_001001''}" by simp
  have d: "''CID_001002'' \<notin> {''CID_001001''} \<and> ''CID_001002'' \<in> {''CID_001002''}" by simp
  from support_case_dates [of rnd0 1 "midnight (2025, 8, 30)" "midnight (2025, 8, 31)"
      example_tables "example_cases ! 0" "''CID_001001''" "{''CID_001001''}"
      "{''CID_001001''}" 0 0 101]
    support_case_dates [of rnd0 1 "midnight (2025, 8, 30)" "midnight (2025, 8, 31)"
      example_tables "example_cases ! 0" "''CID_001002''" "{''CID_001001''}"
      "{''CID_001002''}" 0 0 101]
    example_run a b c d
  show ?thesis by blast
qed

section \<open>Daily readings\<close>

lemma length_date_range: "length (date_range s e) = date_range_len s e"
  by (simp add: date_range_def)

lemma map_date_of_date_range:
  "map date_of (date_range s e) = map (plus_days (date_of s)) [0..<date_range_len s e]"
  by (simp add: date_range_def add_days_def date_of_def)

lemma plus_days_inj:
  assumes "valid_date d" "plus_days d j = plus_days d k"
  shows "j = k"
proof -
  from assms(2) have "toordinal (plus_days d j) = toordinal (plus_days d k)" by simp
  with assms(1) show ?thesis by (simp add: toordinal_plus_days)
qed

lemma distinct_dates_date_range:
  assumes "valid_date (date_of s)"
  shows "distinct (map date_of (date_range s e))"
proof -
  have "inj_on (plus_days (date_of s)) (set [0..<date_range_len s e])"
    using assms by (auto intro!: inj_onI dest: plus_days_inj)
  then show ?thesis
    by (simp add: map_date_of_date_range distinct_map)
qed

text \<open>
  The range holds exactly the days whose timestamp at the time of day of \<open>s\<close> lies between
  \<open>s\<close> and \<open>e\<close>.
\<close>

lemma date_range_days:
  assumes "valid_date (date_of s)" "valid_date (date_of e)" "valid_date d"
  shows "d \<in> set (map date_of (date_range s e)) \<longleftrightarrow> s \<le> (d, time_of s) \<and> (d, time_of s) \<le> e"
proof -
  obtain ds ts where s: "s = (ds, ts)" by (cases s)
  obtain de te where e: "e = (de, te)" by (cases e)
  from assms s e have v: "valid_date ds" "valid_date de" by (simp_all add: date_of_def)
  have len: "date_range_len s e = nat (toordinal de - toordinal ds + (if ts \<le> te then 1 else 0))"
    by (simp add: date_range_len_def s e)
  have in_range: "s \<le> (d, time_of s) \<and> (d, time_of s) \<le> e \<longleftrightarrow>
      ds \<le> d \<and> (d < de \<or> (d \<le> de \<and> ts \<le> te))"
    by (auto simp: s e time_of_def)
  show ?thesis
  proof
    assume "d \<in> set (map date_of (date_range s e))"
    then obtain k where k: "k < date_range_len s e" and d: "d = plus_days ds k"
      by (auto simp: map_date_of_date_range s date_of_def)
    have ord: "toordinal d = toordinal ds + int k"
      using v(1) by (simp add: d toordinal_plus_days)
    then have "toordinal ds \<le> toordinal d" by simp
    then have 1: "ds \<le> d"
      using v(1) assms(3) by (simp add: toordinal_le_iff)
    have 2: "d < de \<or> (d \<le> de \<and> ts \<le> te)"
    proof (cases "ts \<le> te")
      case True
      with k len ord have "toordinal d \<le> toordinal de" by simp
      with True show ?thesis using v(2) assms(3) by (simp add: toordinal_le_iff)
    next
      case False
      with k len ord have "toordinal d < toordinal de" by simp
      then show ?thesis using v(2) assms(3) by (simp add: toordinal_less_iff)
    qed
    from 1 2 show "s \<le> (d, time_of s) \<and> (d, time_of s) \<le> e"
      by (simp only: in_range)
  next
    assume "s \<le> (d, time_of s) \<and> (d, time_of s) \<le> e"
    then have 1: "ds \<le> d" and 2: "d < de \<or> (d \<le> de \<and> ts \<le> te)"
      by (simp_all only: in_range)
    define k where "k = nat (toordinal d - toordinal ds)"
    have le: "toordinal ds \<le> toordinal d"
      using 1 v(1) assms(3) by (simp add: toordinal_le_iff)
    have d: "plus_days ds k = d"
      unfolding k_def using v(1) assms(3) 1 by (rule plus_days_reaches)
    have "k < date_range_len s e"
    proof (cases "ts \<le> te")
      case True
      with 2 have "d \<le> de" by auto
      then have "toordinal d \<le> toordinal de"
        using v(2) assms(3) by (simp add: toordinal_le_iff)
      with True le show ?thesis by (simp add: len k_def)
    next
      case False
      with 2 have "d < de" by auto
      then have "toordinal d < toordinal de"
        using v(2) assms(3) by (simp add: toordinal_less_iff)
      with False le show ?thesis by (simp add: len k_def)
    qed
    with d show "d \<in> set (map date_of (date_range s e))"
      by (auto simp: map_date_of_date_range s date_of_def)
  qed
qed

lemma count_list_distinct: "distinct xs \<Longrightarrow> x \<in> set xs \<Longrightarrow> count_list xs x = 1"
  by (induction xs) auto

lemma count_list_pairs:
  "count_list (concat (map (\<lambda>c. map (\<lambda>d. (c, d)) ds) cs)) (c0, d0) =
     count_list cs c0 * count_list ds d0"
proof (induction cs)
  case Nil
  show ?case by simp
next
  case (Cons c cs)
  have "count_list (map (\<lambda>d. (c, d)) ds) (c0, d0) = (if c = c0 then count_list ds d0 else 0)"
    by (induction ds) auto
  with Cons show ?case by simp
qed

lemma length_filter_count:
  "length (filter (\<lambda>x. g x = y) xs) = count_list (map g xs) y"
  by (induction xs) auto

lemma keys_of_rows:
  assumes "\<And>x y m. g (row x y m) = (fx x, fy y)"
  shows "map g (number_from n0 (concat (map (\<lambda>x. map (row x) ys) xs))) =
           concat (map (\<lambda>c. map (\<lambda>d. (c, d)) (map fy ys)) (map fx xs))"
proof -
  have "map g (number_from n0 (concat (map (\<lambda>x. map (row x) ys) xs))) =
      map (\<lambda>f. g (f 0)) (concat (map (\<lambda>x. map (row x) ys) xs))"
  proof (rule map_number_from)
    fix f m
    assume "f \<in> set (concat (map (\<lambda>x. map (row x) ys) xs))"
    then obtain x y where "f = row x y" by auto
    then show "g (f m) = g (f 0)" by (simp add: assms)
  qed
  also have "\<dots> = concat (map (\<lambda>c. map (\<lambda>d. (c, d)) (map fy ys)) (map fx xs))"
  proof (induction xs)
    case Nil
    show ?case by simp
  next
    case (Cons x xs)
    have "map (\<lambda>f. g (f 0)) (map (row x) ys) = map (\<lambda>d. (fx x, d)) (map fy ys)"
      by (simp add: assms)
    with Cons show ?case by simp
  qed
  finally show ?thesis .
qed

lemma reading_keys:
  "map (\<lambda>r. (READING_CUSTOMER_ID r, date_of (TIMESTAMP r))) (readings_data rnd n s e) =
     concat (map (\<lambda>c. map (\<lambda>d. (c, d)) (map date_of (date_range s e))) (customer_ids n))"
proof -
  have key: "(READING_CUSTOMER_ID (reading_row rnd so an ty ic kd m),
              date_of (TIMESTAMP (reading_row rnd so an ty ic kd m))) =
             (snd ic, (date_of \<circ> snd) kd)" for so an ty ic kd m
    by (cases ic; cases kd) (simp add: reading_row_fields date_of_replace_hour_minute)
  have "map (\<lambda>r. (READING_CUSTOMER_ID r, date_of (TIMESTAMP r))) (readings_data rnd n s e) =
      concat (map (\<lambda>c. map (\<lambda>d. (c, d)) (map (date_of \<circ> snd) (enumerate_list (date_range s e))))
                (map snd (enumerate_list (customer_ids n))))"
    unfolding readings_data_def customers_data_ids
    by (rule keys_of_rows) (rule key)
  also have "map (date_of \<circ> snd) (enumerate_list (date_range s e)) = map date_of (date_range s e)"
    using map_snd_enumerate_list [of "date_range s e"] map_map [of date_of snd] by metis
  finally show ?thesis by (simp only: map_snd_enumerate_list)
qed

lemma readings_count:
  "length (filter (\<lambda>r. READING_CUSTOMER_ID r = c \<and> date_of (TIMESTAMP r) = d)
             (readings_data rnd n s e)) =
     count_list (customer_ids n) c * count_list (map date_of (date_range s e)) d"
proof -
  have "length (filter (\<lambda>r. READING_CUSTOMER_ID r = c \<and> date_of (TIMESTAMP r) = d)
             (readings_data rnd n s e)) =
      length (filter (\<lambda>r. (READING_CUSTOMER_ID r, date_of (TIMESTAMP r)) = (c, d))
             (readings_data rnd n s e))"
    by simp
  also have "\<dots> = count_list (map (\<lambda>r. (READING_CUSTOMER_ID r, date_of (TIMESTAMP r)))
                                (readings_data rnd n s e)) (c, d)"
    by (rule length_filter_count)
  finally show ?thesis by (simp only: reading_keys count_list_pairs)
qed

text \<open>
  C7. Consumption and generation of every reading are not negative. For every customer
  and every calendar day of the window there is exactly one reading of that customer on
  that day. The generator samples day \<open>d\<close> at the time of day of start_date; the day is in
  the window when that timestamp lies between start_date and end_date. Where the time of
  day of start_date is not later than that of end_date, as for two dates, these are the
  days from the day of start_date to the day of end_date.
\<close>

theorem one_reading_per_customer_and_day:
  assumes "generate_energy_provider_data rnd n s e = Inr T"
    and "valid_date (date_of s)" and "valid_date (date_of e)"
  shows "(\<forall>r \<in> set (readings_df T). 0 \<le> KWH_CONSUMPTION r \<and> 0 \<le> KW_GENERATION r) \<and>
         (\<forall>c \<in> set (customers_df T). \<forall>d.
            valid_date d \<and> s \<le> (d, time_of s) \<and> (d, time_of s) \<le> e \<longrightarrow>
            length (filter (\<lambda>r. READING_CUSTOMER_ID r = CUSTOMER_ID c \<and>
                                 date_of (TIMESTAMP r) = d) (readings_df T)) = 1) \<and>
         (time_of s \<le> time_of e \<longrightarrow>
            (\<forall>c \<in> set (customers_df T). \<forall>d.
               valid_date d \<and> date_of s \<le> d \<and> d \<le> date_of e \<longrightarrow>
               length (filter (\<lambda>r. READING_CUSTOMER_ID r = CUSTOMER_ID c \<and>
                                    date_of (TIMESTAMP r) = d) (readings_df T)) = 1))"
proof -
  have rd: "readings_df T = readings_data rnd n s e"
    using assms(1) by (rule generate_Inr)
  have nonneg: "0 \<le> KWH_CONSUMPTION r \<and> 0 \<le> KW_GENERATION r" if "r \<in> set (readings_df T)" for r
  proof -
    from that rd have "r \<in> set (readings_data rnd n s e)" by simp
    then obtain i c k dy m where
      "r = reading_row rnd (solar_customers rnd n) (anomaly_customers rnd n)
             (customer_types rnd n) (i, c) (k, dy) m"
      by (rule readings_dataE)
    then show ?thesis by (simp add: reading_row_nonneg)
  qed
  have one: "length (filter (\<lambda>r. READING_CUSTOMER_ID r = CUSTOMER_ID c \<and>
                                 date_of (TIMESTAMP r) = d) (readings_df T)) = 1"
    if c: "c \<in> set (customers_df T)" and d: "valid_date d"
      and lo: "s \<le> (d, time_of s)" and hi: "(d, time_of s) \<le> e" for c d
  proof -
    from c assms(1) have "CUSTOMER_ID c \<in> set (map CUSTOMER_ID (customers_data rnd n))"
      by (simp add: generate_Inr)
    then have "CUSTOMER_ID c \<in> set (customer_ids n)"
      by (simp only: customers_data_ids)
    then have 1: "count_list (customer_ids n) (CUSTOMER_ID c) = 1"
      using distinct_customer_ids by (intro count_list_distinct)
    have "d \<in> set (map date_of (date_range s e))"
      using assms(2,3) d lo hi by (simp only: date_range_days)
    then have 2: "count_list (map date_of (date_range s e)) d = 1"
      using distinct_dates_date_range [OF assms(2)] by (intro count_list_distinct)
    show ?thesis by (simp only: rd readings_count 1 2)
  qed
  have plain: "s \<le> (d, time_of s) \<and> (d, time_of s) \<le> e"
    if "time_of s \<le> time_of e" "date_of s \<le> d" "d \<le> date_of e" for d
    using that by (cases s; cases e) (auto simp: time_of_def date_of_def)
  from nonneg one plain show ?thesis by blast
qed

theorem one_reading_per_customer_and_day_witness:
  "generate_energy_provider_data rnd0 1 (midnight (2025, 8, 30)) (midnight (2025, 8, 31)) =
     Inr example_tables \<and>
   valid_date (date_of (midnight (2025, 8, 30))) \<and>
   valid_date (date_of (midnight (2025, 8, 31))) \<and>
   time_of (midnight (2025, 8, 30)) \<le> time_of (midnight (2025, 8, 31)) \<and>
   customers_df example_tables ! 0 \<in> set (customers_df example_tables) \<and>
   valid_date (2025, 8, 31) \<and>
   date_of (midnight (2025, 8, 30)) \<le> (2025, 8, 31) \<and>
   (2025, 8, 31) \<le> date_of (midnight (2025, 8, 31)) \<and>
   midnight (2025, 8, 30) \<le> ((2025, 8, 31), time_of (midnight (2025, 8, 30))) \<and>
   ((2025, 8, 31), time_of (midnight (2025, 8, 30))) \<le> midnight (2025, 8, 31) \<and>
   length (filter (\<lambda>r. READING_CUSTOMER_ID r = CUSTOMER_ID (customers_df example_tables ! 0) \<and>
                        date_of (TIMESTAMP r) = (2025, 8, 31))
             (readings_df example_tables)) = 1 \<and>
   example_readings ! 1 \<in> set (readings_df example_tables) \<and>
   0 \<le> KWH_CONSUMPTION (example_readings ! 1) \<and> 0 \<le> KW_GENERATION (example_readings ! 1)"
proof -
  have v: "valid_date (date_of (midnight (2025, 8, 30)))"
    "valid_date (date_of (midnight (2025, 8, 31)))" "valid_date (2025, 8, 31)"
    by (simp_all add: valid_date_def date_of_def midnight_def days_in_month_def)
  have t: "time_of (midnight (2025, 8, 30)) \<le> time_of (midnight (2025, 8, 31))"
    by (simp add: time_of_def midnight_def)
  have c: "customers_df example_tables ! 0 \<in> set (customers_df example_tables)"
    by (simp add: example_tables_def)
  have d: "date_of (midnight (2025, 8, 30)) \<le> (2025, 8, 31)"
    "(2025, 8, 31) \<le> date_of (midnight (2025, 8, 31))"
    "midnight (2025, 8, 30) \<le> ((2025, 8, 31), time_of (midnight (2025, 8, 30)))"
    "((2025, 8, 31), time_of (midnight (2025, 8, 30))) \<le> midnight (2025, 8, 31)"
    by (simp_all add: date_of_def time_of_def midnight_def)
  have r: "example_readings ! 1 \<in> set (readings_df example_tables)"
    by (simp add: example_tables_def example_readings_def)
  from one_reading_per_customer_and_day [OF example_run v(1,2)] example_run v t c d r
  show ?thesis by blast
qed

section \<open>Billing periods\<close>

lemma date_of_min: "date_of (min a b) = min (date_of a) (date_of b)"
  by (cases a; cases b) (auto simp: date_of_def min_def)

lemma month_index_bounds: "1 \<le> (t::int) mod 12 + 1" "t mod 12 + 1 \<le> 12"
proof -
  have "0 \<le> t mod 12" "t mod 12 < 12" by simp_all
  then show "1 \<le> t mod 12 + 1" "t mod 12 + 1 \<le> 12" by simp_all
qed

lemma period_start_first_of_month:
  "\<exists>y m. 1 \<le> m \<and> m \<le> 12 \<and> replace_day (add_months s k) 1 = ((y, m, 1), time_of s)"
proof -
  obtain y0 m0 d0 t where s: "s = ((y0, m0, d0), t)" by (cases s) auto
  define y where "y = y0 + (m0 - 1 + k) div 12"
  define m where "m = (m0 - 1 + k) mod 12 + 1"
  have "replace_day (add_months s k) 1 = ((y, m, 1), time_of s)"
    by (simp add: s add_months_def replace_day_def Let_def y_def m_def time_of_def)
  moreover have "1 \<le> m" "m \<le> 12"
    unfolding m_def by (rule month_index_bounds)+
  ultimately show ?thesis by blast
qed

lemma last_day_of_month:
  assumes "1 \<le> m" "m \<le> 12"
  shows "add_days (add_months ((y, m, 1), t) 1) (- 1) = ((y, m, days_in_month y m), t)"
proof (cases "m = 12")
  case True
  have "(12::int) div 12 = 1" "(12::int) mod 12 = 0" by simp_all
  then have "add_months ((y, 12, 1), t) 1 = ((y + 1, 1, 1), t)"
    by (simp add: add_months_def Let_def days_in_month_def)
  moreover have "prev_day (y + 1, 1, 1) = (y, 12, days_in_month y 12)"
    by (simp add: prev_day_def days_in_month_def)
  ultimately show ?thesis
    using True by (simp add: add_days_def)
next
  case False
  with assms have m: "0 \<le> m" "m < 12" by simp_all
  then have "m div 12 = 0" "m mod 12 = m"
    by (simp_all add: div_pos_pos_trivial mod_pos_pos_trivial)
  moreover have "min 1 (days_in_month y (m + 1)) = 1"
    using days_in_month_bounds(1) [of y "m + 1"] by simp
  ultimately have "add_months ((y, m, 1), t) 1 = ((y, m + 1, 1), t)"
    by (simp add: add_months_def Let_def)
  moreover have "prev_day (y, m + 1, 1) = (y, m, days_in_month y m)"
    using assms by (simp add: prev_day_def)
  ultimately show ?thesis by (simp add: add_days_def)
qed

lemma invoice_row_Some:
  assumes "invoice_row readings overdue s e c k = Some f"
  shows "\<not> e < add_months s k"
    and "f m =
      (let period_start = replace_day (add_months s k) 1;
           period_end = min (add_days (add_months period_start 1) (- 1)) e
       in \<lparr>INVOICE_ID = ''INV_'' @ zero_pad 7 m,
           INVOICE_CUSTOMER_ID = c,
           INVOICE_DATE = date_of (add_days period_end 5),
           DUE_DATE = plus_days (date_of (add_days period_end 5)) 14,
           AMOUNT_DUE = round2 (monthly_consumption readings c period_start period_end
                                  * TARIFF_RATE_KWH + BASE_MONTHLY_FEE),
           PAYMENT_STATUS =
             (if month period_start = month e \<and> year period_start = year e then ''pending''
              else if c \<in> overdue \<and> month period_start = 8 then ''overdue'' else ''paid''),
           CONSUMPTION_PERIOD_START = date_of period_start,
           CONSUMPTION_PERIOD_END = date_of period_end\<rparr>)"
proof -
  show ne: "\<not> e < add_months s k"
    using assms by (auto simp: invoice_row_def Let_def split: if_splits)
  from assms ne show "f m =
      (let period_start = replace_day (add_months s k) 1;
           period_end = min (add_days (add_months period_start 1) (- 1)) e
       in \<lparr>INVOICE_ID = ''INV_'' @ zero_pad 7 m,
           INVOICE_CUSTOMER_ID = c,
           INVOICE_DATE = date_of (add_days period_end 5),
           DUE_DATE = plus_days (date_of (add_days period_end 5)) 14,
           AMOUNT_DUE = round2 (monthly_consumption readings c period_start period_end
                                  * TARIFF_RATE_KWH + BASE_MONTHLY_FEE),
           PAYMENT_STATUS =
             (if month period_start = month e \<and> year period_start = year e then ''pending''
              else if c \<in> overdue \<and> month period_start = 8 then ''overdue'' else ''paid''),
           CONSUMPTION_PERIOD_START = date_of period_start,
           CONSUMPTION_PERIOD_END = date_of period_end\<rparr>)"
    by (auto simp: invoice_row_def Let_def)
qed

lemma billing_rowsE:
  assumes "f \<in> set (billing_rows readings overdue s e ids)"
  obtains c k where "c \<in> set ids" "0 \<le> k" "k < num_months s e"
    "invoice_row readings overdue s e c k = Some f"
proof -
  from assms obtain c j where c: "c \<in> set ids" and j: "j < nat (num_months s e)"
    and f: "invoice_row readings overdue s e c (int j) = Some f"
    by (auto simp: billing_rows_def List.map_filter_def)
  from j have "0 \<le> int j" "int j < num_months s e" by simp_all
  with c f that show ?thesis by blast
qed

lemma billing_dataE:
  assumes "billing_data rnd n s e = Inr B" "iv \<in> set B"
  obtains c k f m where "c \<in> set (customer_ids n)" "0 \<le> k" "k < num_months s e"
    "invoice_row (readings_data rnd n s e) (overdue_customers rnd n) s e c k = Some f"
    "iv = f m"
proof -
  from assms(1) have B: "B = number_from 80001
      (billing_rows (readings_data rnd n s e) (overdue_customers rnd n) s e
         (map CUSTOMER_ID (customers_data rnd n)))"
    by (auto simp: billing_data_def Let_def split: if_splits)
  with assms(2) obtain f m where
    f: "f \<in> set (billing_rows (readings_data rnd n s e) (overdue_customers rnd n) s e
                    (customer_ids n))" and iv: "iv = f m"
    unfolding customers_data_ids by (blast dest: set_number_from)
  from f obtain c k where "c \<in> set (customer_ids n)" "0 \<le> k" "k < num_months s e"
    "invoice_row (readings_data rnd n s e) (overdue_customers rnd n) s e c k = Some f"
    by (rule billing_rowsE)
  with iv that show ?thesis by blast
qed

text \<open>
  C3, as amended. The consumption period of an invoice starts on the first day of a
  month, also where start_date is a later day of that month, and it ends on the last day
  of that month or on the day of end_date, whichever is earlier.
\<close>

theorem consumption_period_of_invoice:
  assumes "generate_energy_provider_data rnd n s e = Inr T"
    and "iv \<in> set (billing_df T)"
  shows "\<exists>y m. 1 \<le> m \<and> m \<le> 12 \<and>
           CONSUMPTION_PERIOD_START iv = (y, m, 1) \<and>
           CONSUMPTION_PERIOD_END iv = min (y, m, days_in_month y m) (date_of e)"
proof -
  from assms(1) have "billing_data rnd n s e = Inr (billing_df T)"
    by (rule generate_Inr)
  from this assms(2) obtain c k f i where
    row: "invoice_row (readings_data rnd n s e) (overdue_customers rnd n) s e c k = Some f"
    and iv: "iv = f i"
    by (rule billing_dataE)
  obtain y m where m: "1 \<le> m" "m \<le> 12"
    and ps: "replace_day (add_months s k) 1 = ((y, m, 1), time_of s)"
    using period_start_first_of_month [of s k] by blast
  have pe: "add_days (add_months ((y, m, 1), time_of s) 1) (- 1) =
      ((y, m, days_in_month y m), time_of s)"
    using m by (rule last_day_of_month)
  have "CONSUMPTION_PERIOD_START iv = (y, m, 1)"
    unfolding iv invoice_row_Some(2) [OF row] by (simp add: Let_def ps date_of_def)
  moreover have "CONSUMPTION_PERIOD_END iv = min (y, m, days_in_month y m) (date_of e)"
    unfolding iv invoice_row_Some(2) [OF row]
    by (simp add: Let_def ps pe date_of_min) (simp add: date_of_def)
  ultimately show ?thesis using m by blast
qed

theorem consumption_period_of_invoice_witness:
  "generate_energy_provider_data rnd0 1 (midnight (2025, 8, 30)) (midnight (2025, 8, 31)) =
     Inr example_tables \<and>
   example_billing ! 0 \<in> set (billing_df example_tables) \<and>
   (\<exists>y m. 1 \<le> m \<and> m \<le> 12 \<and>
      CONSUMPTION_PERIOD_START (example_billing ! 0) = (y, m, 1) \<and>
      CONSUMPTION_PERIOD_END (example_billing ! 0) =
        min (y, m, days_in_month y m) (date_of (midnight (2025, 8, 31))))"
proof -
  have a: "example_billing ! 0 \<in> set (billing_df example_tables)"
    by (simp add: example_tables_def example_billing_def)
  from consumption_period_of_invoice [OF example_run a] example_run a
  show ?thesis by blast
qed

text \<open>
  C3, as stated, fails on the run of the example: start_date is 2025-08-30, and the
  consumption period of the invoice starts on 2025-08-01, which is earlier than start_date
  and is not the later of the first day of the month and start_date.
\<close>

theorem consumption_period_start_counterexample:
  "generate_energy_provider_data rnd0 1 (midnight (2025, 8, 30)) (midnight (2025, 8, 31)) =
     Inr example_tables \<and>
   example_billing ! 0 \<in> set (billing_df example_tables) \<and>
   CONSUMPTION_PERIOD_START (example_billing ! 0) = (2025, 8, 1) \<and>
   CONSUMPTION_PERIOD_START (example_billing ! 0) < date_of (midnight (2025, 8, 30)) \<and>
   CONSUMPTION_PERIOD_START (example_billing ! 0) \<noteq>
     max (2025, 8, 1) (date_of (midnight (2025, 8, 30)))"
  using example_run
  by (simp add: example_tables_def example_billing_def date_of_def midnight_def max_def)

section \<open>Runs that fail\<close>

lemma add_months_ge:
  assumes "valid_date (date_of s)" "0 \<le> k"
  shows "s \<le> add_months s k"
proof -
  obtain y m d t where s: "s = ((y, m, d), t)" by (cases s) auto
  from assms(1) s have v: "1 \<le> m" "m \<le> 12" "1 \<le> d" "d \<le> days_in_month y m"
    by (simp_all add: valid_date_def date_of_def)
  define total where "total = m - 1 + k"
  define y' where "y' = y + total div 12"
  define m' where "m' = total mod 12 + 1"
  have res: "add_months ((y, m, d), t) k = ((y', m', min d (days_in_month y' m')), t)"
    by (simp add: add_months_def Let_def total_def y'_def m'_def)
  have total: "0 \<le> total" using v(1) assms(2) by (simp add: total_def)
  then have q: "0 \<le> total div 12" by (simp add: pos_imp_zdiv_nonneg_iff)
  show ?thesis
  proof (cases "0 < total div 12")
    case True
    then have "y < y'" by (simp add: y'_def)
    then show ?thesis by (simp add: s res)
  next
    case False
    with q have z: "total div 12 = 0" by simp
    have "total = 12 * (total div 12) + total mod 12" by simp
    with z have "total mod 12 = total" by simp
    then have m': "m' = m + k" by (simp add: m'_def total_def)
    have y': "y' = y" by (simp add: y'_def z)
    show ?thesis
    proof (cases "0 < k")
      case True
      with m' have "m < m'" by simp
      then show ?thesis by (simp add: s res y')
    next
      case False
      with assms(2) have "k = 0" by simp
      with m' have "m' = m" by simp
      with v(4) y' show ?thesis by (simp add: s res)
    qed
  qed
qed

lemma invoice_row_None:
  assumes "valid_date (date_of s)" "e < s" "0 \<le> k"
  shows "invoice_row readings overdue s e c k = None"
proof -
  have "s \<le> add_months s k" using assms(1,3) by (rule add_months_ge)
  with assms(2) have "e < add_months s k" by simp
  then show ?thesis by (simp add: invoice_row_def)
qed

lemma billing_rows_Nil:
  assumes "valid_date (date_of s)" "e < s"
  shows "billing_rows readings overdue s e ids = []"
proof -
  have "List.map_filter (invoice_row readings overdue s e c)
          (map int [0..<nat (num_months s e)]) = []" for c
    using assms by (simp add: List.map_filter_def filter_empty_conv invoice_row_None)
  then show ?thesis by (simp add: billing_rows_def)
qed

lemma contract_slots_first:
  "contract_slots rnd i c {} (j # js) \<noteq> []"
  by (simp add: Let_def)

lemma choice_1_2: "choice [1, 2::nat] r = 1 \<or> choice [1, 2::nat] r = 2"
proof -
  define j where "j = r mod length [1, 2::nat]"
  have "j = 0 \<or> j = 1" unfolding j_def by (simp, arith)
  moreover have "choice [1, 2::nat] r = [1, 2] ! j"
    unfolding choice_def j_def ..
  ultimately show ?thesis by auto
qed

lemma contracts_data_nonempty:
  assumes "0 < n"
  shows "contracts_data rnd n \<noteq> []"
proof -
  let ?F = "\<lambda>(i, customer_id).
      let num_contracts = choice [1, 2] (num_contracts_draw rnd i)
      in contract_slots rnd i customer_id {} [0..<num_contracts]"
  from assms have "0 < length (customer_ids n)"
    by (simp add: length_customer_ids)
  then have in_set: "(0, customer_ids n ! 0) \<in> set (enumerate_list (customer_ids n))"
    by (simp add: set_enumerate_list)
  obtain j js where "[0..<choice [1, 2] (num_contracts_draw rnd 0)] = j # js"
    using choice_1_2 [of "num_contracts_draw rnd 0"] by (auto simp: upt_rec [of 0])
  then have "?F (0, customer_ids n ! 0) \<noteq> []"
    by (simp add: Let_def)
  with in_set have "\<exists>xs \<in> set (map ?F (enumerate_list (customer_ids n))). xs \<noteq> []"
    by (intro bexI [of _ "?F (0, customer_ids n ! 0)"]) (simp_all add: rev_image_eqI)
  then have "concat (map ?F (enumerate_list (customer_ids n))) \<noteq> []"
    by (simp only: concat_eq_Nil_conv) blast
  then show ?thesis
    by (simp only: contracts_data_def customers_data_ids number_from_Nil not_False_eq_True)
qed

lemma add_months_0:
  assumes "valid_date (date_of s)"
  shows "add_months s 0 = s"
proof -
  obtain y m d t where s: "s = ((y, m, d), t)" by (cases s) auto
  from assms have v: "1 \<le> m" "m \<le> 12" "d \<le> days_in_month y m"
    by (simp_all add: s valid_date_def date_of_def)
  then have "0 \<le> m - 1" "m - 1 < 12" by simp_all
  then have "(m - 1) div 12 = 0" "(m - 1) mod 12 = m - 1"
    by (simp_all add: div_pos_pos_trivial mod_pos_pos_trivial)
  with v(3) show ?thesis
    by (simp add: s add_months_def Let_def)
qed

lemma num_months_positive:
  assumes "valid_date (date_of s)" "valid_date (date_of e)" "s \<le> e"
  shows "0 < num_months s e"
proof -
  obtain ys ms ds ts where s: "s = ((ys, ms, ds), ts)" by (cases s) auto
  obtain ye me de te where e: "e = ((ye, me, de), te)" by (cases e) auto
  from assms(1,2) have v: "1 \<le> ms" "ms \<le> 12" "1 \<le> me" "me \<le> 12"
    by (simp_all add: s e valid_date_def date_of_def)
  from assms(3) have "ys < ye \<or> (ys = ye \<and> ms \<le> me)"
    by (auto simp: s e)
  then show ?thesis
  proof
    assume "ys < ye"
    then have "12 \<le> (ye - ys) * 12" by simp
    with v show ?thesis by (simp add: num_months_def s e year_def month_def)
  next
    assume "ys = ye \<and> ms \<le> me"
    then show ?thesis by (simp add: num_months_def s e year_def month_def)
  qed
qed

lemma date_range_len_positive:
  assumes "valid_date (date_of s)" "valid_date (date_of e)" "s \<le> e"
  shows "0 < date_range_len s e"
proof -
  obtain ds ts where s: "s = (ds, ts)" by (cases s)
  obtain de te where e: "e = (de, te)" by (cases e)
  from assms(1,2) have v: "valid_date ds" "valid_date de" by (simp_all add: s e date_of_def)
  from assms(3) have "ds < de \<or> (ds = de \<and> ts \<le> te)" by (auto simp: s e)
  then show ?thesis
  proof
    assume "ds < de"
    with v have "toordinal ds < toordinal de" by (intro toordinal_less)
    then show ?thesis by (simp add: date_range_len_def s e)
  next
    assume "ds = de \<and> ts \<le> te"
    then show ?thesis by (simp add: date_range_len_def s e)
  qed
qed

lemma concat_map_nonempty:
  assumes "x \<in> set xs" "F x \<noteq> []"
  shows "concat (map F xs) \<noteq> []"
  using assms by (auto simp: concat_eq_Nil_conv)

lemma readings_data_nonempty:
  assumes "0 < n" "valid_date (date_of s)" "valid_date (date_of e)" "s \<le> e"
  shows "readings_data rnd n s e \<noteq> []"
proof -
  let ?row = "reading_row rnd (solar_customers rnd n) (anomaly_customers rnd n)
                (customer_types rnd n)"
  let ?F = "\<lambda>ic. map (?row ic) (enumerate_list (date_range s e))"
  from assms(1) have "0 < length (customer_ids n)" by (simp add: length_customer_ids)
  then have ic: "(0, customer_ids n ! 0) \<in> set (enumerate_list (customer_ids n))"
    by (simp add: set_enumerate_list)
  have "0 < length (date_range s e)"
    using date_range_len_positive [OF assms(2,3,4)] by (simp add: date_range_def)
  then have "enumerate_list (date_range s e) \<noteq> []"
    using length_enumerate_list [of "date_range s e"] by auto
  then have "?F (0, customer_ids n ! 0) \<noteq> []" by simp
  with ic have "concat (map ?F (enumerate_list (customer_ids n))) \<noteq> []"
    by (rule concat_map_nonempty)
  then show ?thesis
    by (simp only: readings_data_def customers_data_ids number_from_Nil not_False_eq_True)
qed

lemma billing_rows_nonempty:
  assumes "ids \<noteq> []" "valid_date (date_of s)" "valid_date (date_of e)" "s \<le> e"
  shows "billing_rows readings overdue s e ids \<noteq> []"
proof -
  let ?offsets = "map int [0..<nat (num_months s e)]"
  let ?F = "\<lambda>c. List.map_filter (invoice_row readings overdue s e c) ?offsets"
  from assms(1) obtain c where c: "c \<in> set ids" by (cases ids) auto
  have "0 < nat (num_months s e)"
    using num_months_positive [OF assms(2,3,4)] by simp
  then have zero: "0 \<in> set ?offsets" by auto
  have "\<not> e < add_months s 0"
    using assms(4) by (simp add: add_months_0 [OF assms(2)])
  then have "invoice_row readings overdue s e c 0 \<noteq> None"
    by (simp add: invoice_row_def Let_def)
  with zero have "\<exists>k \<in> set ?offsets. invoice_row readings overdue s e c k \<noteq> None"
    by blast
  then have "filter (\<lambda>k. invoice_row readings overdue s e c k \<noteq> None) ?offsets \<noteq> []"
    by (simp only: filter_empty_conv) blast
  then have "?F c \<noteq> []" by (simp add: List.map_filter_def)
  with c show ?thesis
    unfolding billing_rows_def by (rule concat_map_nonempty)
qed

lemma billing_data_nonempty:
  assumes "0 < n" "valid_date (date_of s)" "valid_date (date_of e)" "s \<le> e"
  shows "\<exists>B. billing_data rnd n s e = Inr B \<and> B \<noteq> []"
proof -
  from assms(1) have "customer_ids n \<noteq> []"
    using length_customer_ids [of n] by auto
  then have rows: "billing_rows (readings_data rnd n s e) (overdue_customers rnd n) s e
      (map CUSTOMER_ID (customers_data rnd n)) \<noteq> []"
    unfolding customers_data_ids using assms(2,3,4) by (rule billing_rows_nonempty)
  have rd: "readings_data rnd n s e \<noteq> []"
    using assms by (rule readings_data_nonempty)
  show ?thesis
    using rows rd by (simp add: billing_data_def Let_def number_from_Nil)
qed

text \<open>\<^verbatim>\<open>int(num_customers * 0.2)\<close> is a fifth of the count, rounded down.\<close>

lemma fifth_of_customers: "\<lfloor>real_of_int n * 0.2\<rfloor> = n div 5"
proof -
  have "real_of_int n * 0.2 = real_of_int n / real_of_int 5" by simp
  then show ?thesis by (simp only: floor_divide_of_int_eq)
qed

lemma case_rows_Nil: "case_rows rnd anomaly overdue ids = [] \<longleftrightarrow> ids = []"
proof
  assume "ids = []"
  then show "case_rows rnd anomaly overdue ids = []"
    by (simp add: case_rows_def enumerate_list_def)
next
  assume empty: "case_rows rnd anomaly overdue ids = []"
  show "ids = []"
  proof (rule ccontr)
    assume "ids \<noteq> []"
    then have "0 < length ids" by simp
    then have pc: "(0, ids ! 0) \<in> set (enumerate_list ids)"
      by (simp add: set_enumerate_list)
    let ?F = "\<lambda>pc. let num_cases = randint 1 2 (num_cases_draw rnd (fst pc))
                    in map (case_row rnd anomaly overdue pc) [0..<num_cases]"
    have "1 \<le> randint 1 2 (num_cases_draw rnd 0)" by (rule randint_lower)
    then have "?F (0, ids ! 0) \<noteq> []" by (simp add: Let_def)
    with pc have "concat (map ?F (enumerate_list ids)) \<noteq> []"
      by (rule concat_map_nonempty)
    with empty show False by (simp add: case_rows_def)
  qed
qed

lemma customers_for_cases_Nil:
  assumes "0 < n"
  shows "customers_for_cases rnd n = [] \<longleftrightarrow> all_residential_ids rnd n = [] \<and> n < 5"
proof -
  let ?sample = "random_sample (case_sample_draw rnd) (customer_ids n) (nat (n div 5))"
  let ?order = "iteration_order (anomaly_set_order rnd) (anomaly_sample rnd n)"
  have "nat (n div 5) \<le> length (customer_ids n)"
    using assms by (simp add: length_customer_ids)
  then have len: "length ?sample = nat (n div 5)" by (rule length_random_sample)
  have sample: "?sample = [] \<longleftrightarrow> n < 5"
  proof -
    have "?sample = [] \<longleftrightarrow> nat (n div 5) = 0" using len by auto
    also have "\<dots> \<longleftrightarrow> n < 5" using assms by auto
    finally show ?thesis .
  qed
  have anomaly: "anomaly_sample rnd n = [] \<longleftrightarrow> all_residential_ids rnd n = []"
    using length_anomaly_sample [of rnd n] by (cases "all_residential_ids rnd n") auto
  have "customers_for_cases rnd n = [] \<longleftrightarrow>
      set (customers_for_cases rnd n) = {}" by simp
  also have "\<dots> \<longleftrightarrow> set (?sample @ anomaly_sample rnd n @ take 7 ?order) = {}"
    by (simp only: customers_for_cases_def set_iteration_order fifth_of_customers)
  also have "\<dots> \<longleftrightarrow> ?sample = [] \<and> anomaly_sample rnd n = []"
  proof -
    have "take 7 ?order = []" if "anomaly_sample rnd n = []"
      using that set_iteration_order [of "anomaly_set_order rnd" "anomaly_sample rnd n"]
      by simp
    then show ?thesis by auto
  qed
  finally show ?thesis by (simp only: sample anomaly) blast
qed

lemma cases_data_Nil:
  assumes "0 < n"
  shows "cases_data rnd n = [] \<longleftrightarrow> all_residential_ids rnd n = [] \<and> n < 5"
  by (simp only: cases_data_def number_from_Nil case_rows_Nil customers_for_cases_Nil [OF assms])

lemma commercial_residential: "all_residential_ids commercial_draws 1 = []"
proof -
  have "customers_data commercial_draws 1 =
      [\<lparr>CUSTOMER_ID = ''CID_001001'', CUSTOMER_TYPE = ''commercial'',
        ACCOUNT_STATUS = ''active''\<rparr>]"
    by (simp add: customers_data_def ex_ids enumerate_list_def choice_def
        commercial_draws_def rnd0_fields)
  then show ?thesis by (simp add: all_residential_ids_def)
qed

text \<open>
  C5, as amended. With no customer to generate the run ends in \<^verbatim>\<open>KeyError('JOIN_DATE')\<close>;
  with customers and an end_date earlier than start_date it ends in
  \<^verbatim>\<open>KeyError('INVOICE_DATE')\<close>. Both come from the selection of a column of a table
  without rows, and no table is handed over. Fewer than 15 residential customers are no
  error of their own: the anomaly sample then has as many members as there are
  residential customers, and a run with at least one customer and a start_date that is
  not later than end_date hands over its tables whenever there is a residential customer
  or there are at least five customers. Without any residential customer and with fewer
  than five customers no support case is written, and such a run ends in
  \<^verbatim>\<open>KeyError('CASE_DATE')\<close>, again from a table without rows.
\<close>

theorem errors_on_invalid_input:
  "(n \<le> 0 \<longrightarrow> generate_energy_provider_data rnd n s e = Inl (KeyError ''JOIN_DATE'')) \<and>
   (0 < n \<and> valid_date (date_of s) \<and> e < s \<longrightarrow>
      generate_energy_provider_data rnd n s e = Inl (KeyError ''INVOICE_DATE'')) \<and>
   length (anomaly_sample rnd n) = min 15 (length (all_residential_ids rnd n)) \<and>
   (0 < n \<and> valid_date (date_of s) \<and> valid_date (date_of e) \<and> s \<le> e \<and>
    (all_residential_ids rnd n \<noteq> [] \<or> 5 \<le> n) \<longrightarrow>
      (\<exists>T. generate_energy_provider_data rnd n s e = Inr T)) \<and>
   (0 < n \<and> valid_date (date_of s) \<and> valid_date (date_of e) \<and> s \<le> e \<and>
    all_residential_ids rnd n = [] \<and> n < 5 \<longrightarrow>
      generate_energy_provider_data rnd n s e = Inl (KeyError ''CASE_DATE''))"
proof -
  have none: "generate_energy_provider_data rnd n s e = Inl (KeyError ''JOIN_DATE'')"
    if "n \<le> 0"
    using that by (simp add: generate_energy_provider_data_def customers_data_Nil)
  have reversed: "generate_energy_provider_data rnd n s e = Inl (KeyError ''INVOICE_DATE'')"
    if n: "0 < n" and v: "valid_date (date_of s)" and es: "e < s"
  proof -
    have 1: "customers_data rnd n \<noteq> []" using n by (simp add: customers_data_Nil)
    have 2: "contracts_data rnd n \<noteq> []" using n by (rule contracts_data_nonempty)
    have 3: "billing_data rnd n s e = Inr []"
      by (simp add: billing_data_def billing_rows_Nil [OF v es])
    show ?thesis
      by (simp add: generate_energy_provider_data_def 1 2 3)
  qed
  have ordered: "generate_energy_provider_data rnd n s e =
      (if all_residential_ids rnd n = [] \<and> n < 5 then Inl (KeyError ''CASE_DATE'')
       else Inr \<lparr>customers_df = customers_data rnd n,
                 contracts_df = contracts_data rnd n,
                 readings_df = readings_data rnd n s e,
                 billing_df = B,
                 support_cases_df = cases_data rnd n\<rparr>)"
    if n: "0 < n" and B: "billing_data rnd n s e = Inr B" "B \<noteq> []" for B
  proof -
    have 1: "customers_data rnd n \<noteq> []" using n by (simp add: customers_data_Nil)
    have 2: "contracts_data rnd n \<noteq> []" using n by (rule contracts_data_nonempty)
    show ?thesis
      by (simp add: generate_energy_provider_data_def 1 2 B cases_data_Nil [OF n])
  qed
  have succeeds: "\<exists>T. generate_energy_provider_data rnd n s e = Inr T"
    if n: "0 < n" and v: "valid_date (date_of s)" "valid_date (date_of e)" and se: "s \<le> e"
      and some: "all_residential_ids rnd n \<noteq> [] \<or> 5 \<le> n"
  proof -
    from billing_data_nonempty [OF n v se] obtain B where
      B: "billing_data rnd n s e = Inr B" "B \<noteq> []" by blast
    from some have "\<not> (all_residential_ids rnd n = [] \<and> n < 5)" by auto
    with ordered [OF n B] show ?thesis by simp
  qed
  have no_cases: "generate_energy_provider_data rnd n s e = Inl (KeyError ''CASE_DATE'')"
    if n: "0 < n" and v: "valid_date (date_of s)" "valid_date (date_of e)" and se: "s \<le> e"
      and nobody: "all_residential_ids rnd n = []" "n < 5"
  proof -
    from billing_data_nonempty [OF n v se] obtain B where
      B: "billing_data rnd n s e = Inr B" "B \<noteq> []" by blast
    with ordered [OF n B] nobody show ?thesis by simp
  qed
  from none reversed length_anomaly_sample [of rnd n] succeeds no_cases
  show ?thesis by blast
qed

theorem errors_on_invalid_input_witness:
  "(0::int) \<le> 0 \<and>
   generate_energy_provider_data rnd0 0 (midnight (2025, 8, 30)) (midnight (2025, 8, 31)) =
     Inl (KeyError ''JOIN_DATE'') \<and>
   (0::int) < 1 \<and> valid_date (date_of (midnight (2025, 8, 31))) \<and>
   valid_date (date_of (midnight (2025, 8, 30))) \<and>
   midnight (2025, 8, 30) < midnight (2025, 8, 31) \<and>
   generate_energy_provider_data rnd0 1 (midnight (2025, 8, 31)) (midnight (2025, 8, 30)) =
     Inl (KeyError ''INVOICE_DATE'') \<and>
   midnight (2025, 8, 30) \<le> midnight (2025, 8, 31) \<and>
   all_residential_ids rnd0 1 \<noteq> [] \<and>
   (\<exists>T. generate_energy_provider_data rnd0 1 (midnight (2025, 8, 30)) (midnight (2025, 8, 31)) =
      Inr T) \<and>
   all_residential_ids commercial_draws 1 = [] \<and> (1::int) < 5 \<and>
   generate_energy_provider_data commercial_draws 1 (midnight (2025, 8, 30))
     (midnight (2025, 8, 31)) = Inl (KeyError ''CASE_DATE'')"
proof -
  have v: "valid_date (date_of (midnight (2025, 8, 31)))"
    "valid_date (date_of (midnight (2025, 8, 30)))"
    by (simp_all add: valid_date_def date_of_def midnight_def days_in_month_def)
  have l: "midnight (2025, 8, 30) < midnight (2025, 8, 31)"
    "midnight (2025, 8, 30) \<le> midnight (2025, 8, 31)"
    by (simp_all add: midnight_def)
  have r: "all_residential_ids rnd0 1 \<noteq> []"
    by (simp add: ex_residential)
  from errors_on_invalid_input
         [of 0 rnd0 "midnight (2025, 8, 30)" "midnight (2025, 8, 31)"]
    errors_on_invalid_input
         [of 1 rnd0 "midnight (2025, 8, 31)" "midnight (2025, 8, 30)"]
    errors_on_invalid_input
         [of 1 rnd0 "midnight (2025, 8, 30)" "midnight (2025, 8, 31)"]
    errors_on_invalid_input
         [of 1 commercial_draws "midnight (2025, 8, 30)" "midnight (2025, 8, 31)"]
    v l r commercial_residential
  show ?thesis by simp
qed

text \<open>
  C5, as stated, fails on the run of the example: one residential customer is fewer than
  the sample size of 15, and the run hands over its tables.
\<close>

theorem few_residential_customers_counterexample:
  "length (all_residential_ids rnd0 1) < 15 \<and>
   generate_energy_provider_data rnd0 1 (midnight (2025, 8, 30)) (midnight (2025, 8, 31)) =
     Inr example_tables"
  using example_run by (simp add: ex_residential)

lemma ex2_date_range:
  "date_range (midnight (2025, 7, 31)) (midnight (2025, 8, 1)) =
     [midnight (2025, 7, 31), midnight (2025, 8, 1)]"
proof -
  have "toordinal (2025, 8, 1) - toordinal (2025, 7, 31) = 1"
    by (simp add: toordinal_def days_before_month_def)
  then show ?thesis
    by (simp add: date_range_def date_range_len_def midnight_def add_days_def
        upt_numeral next_day_def days_in_month_def)
qed

lemma ex2_reading_row_0:
  "reading_row rnd0 {''CID_001001''} {''CID_001001''} [''CID_001001'' \<mapsto> ''residential'']
     (0, ''CID_001001'') (0, midnight (2025, 7, 31)) 100001 = example2_readings ! 0"
  by (simp add: reading_row_def ex_numeric_id ex_meter rnd0_fields randint_def round2_10
      anomaly_spike_date_def date_eval example2_readings_def string_eval)

lemma ex2_reading_row_1:
  "reading_row rnd0 {''CID_001001''} {''CID_001001''} [''CID_001001'' \<mapsto> ''residential'']
     (0, ''CID_001001'') (Suc 0, midnight (2025, 8, 1)) 100002 = example2_readings ! 1"
  by (simp add: reading_row_def ex_numeric_id ex_meter rnd0_fields randint_def round2_10
      anomaly_spike_date_def date_eval example2_readings_def string_eval)

lemma ex2_readings:
  "readings_data rnd0 1 (midnight (2025, 7, 31)) (midnight (2025, 8, 1)) = example2_readings"
proof -
  have "readings_data rnd0 1 (midnight (2025, 7, 31)) (midnight (2025, 8, 1)) =
      [example2_readings ! 0, example2_readings ! 1]"
    using ex2_reading_row_0 ex2_reading_row_1
    by (simp add: readings_data_def ex_customers ex_solar ex_anomaly ex_types ex2_date_range
        enumerate_list_def upt_numeral)
  then show ?thesis by (simp add: example2_readings_def)
qed

lemma ex2_num_months: "num_months (midnight (2025, 7, 31)) (midnight (2025, 8, 1)) = 2"
  by (simp add: num_months_def date_eval)

lemma ex2_monthly_consumption:
  "monthly_consumption example2_readings ''CID_001001'' (midnight (2025, 7, 1))
     (midnight (2025, 7, 31)) = 0"
  by (simp add: monthly_consumption_def example2_readings_def midnight_def)

lemma ex2_invoice_row_0:
  "invoice_row example2_readings {''CID_001001''} (midnight (2025, 7, 31))
     (midnight (2025, 8, 1)) ''CID_001001'' 0 =
   Some (\<lambda>n. (example2_billing ! 0)\<lparr>INVOICE_ID := ''INV_'' @ zero_pad 7 n\<rparr>)"
proof -
  have a: "add_months (midnight (2025, 7, 31)) 0 = midnight (2025, 7, 31)"
    by code_simp
  have b: "replace_day (midnight (2025, 7, 31)) 1 = midnight (2025, 7, 1)"
    by code_simp
  have c: "add_days (add_months (midnight (2025, 7, 1)) 1) (- 1) = midnight (2025, 7, 31)"
    by code_simp
  have d: "date_of (add_days (midnight (2025, 7, 31)) 5) = (2025, 8, 5)"
    by code_simp
  have e: "plus_days (2025, 8, 5) 14 = (2025, 8, 19)"
    by code_simp
  have f: "\<not> midnight (2025, 8, 1) < midnight (2025, 7, 31)"
    "min (midnight (2025, 7, 31)) (midnight (2025, 8, 1)) = midnight (2025, 7, 31)"
    by (simp_all add: midnight_def)
  have g: "month (midnight (2025, 7, 1)) = 7" "year (midnight (2025, 7, 1)) = 2025"
    "month (midnight (2025, 8, 1)) = 8" "year (midnight (2025, 8, 1)) = 2025"
    "date_of (midnight (2025, 7, 1)) = (2025, 7, 1)" "date_of (midnight (2025, 7, 31)) = (2025, 7, 31)"
    by (simp_all add: date_eval)
  have h: "round2 BASE_MONTHLY_FEE = 11 / 2"
    by (simp add: BASE_MONTHLY_FEE_def round2_def round_half_even_def)
  show ?thesis
    unfolding invoice_row_def
    by (simp add: a b c d e f g h ex2_monthly_consumption example2_billing_def Let_def)
qed

lemma ex2_invoice_row_1:
  "invoice_row example2_readings {''CID_001001''} (midnight (2025, 7, 31))
     (midnight (2025, 8, 1)) ''CID_001001'' 1 = None"
proof -
  have a: "add_months (midnight (2025, 7, 31)) 1 = midnight (2025, 8, 31)"
    by code_simp
  have b: "midnight (2025, 8, 1) < midnight (2025, 8, 31)"
    by (simp add: midnight_def)
  show ?thesis
    unfolding invoice_row_def by (simp add: a b)
qed

lemma ex2_billing_rows:
  "billing_rows example2_readings {''CID_001001''} (midnight (2025, 7, 31))
     (midnight (2025, 8, 1)) [''CID_001001''] =
   [\<lambda>n. (example2_billing ! 0)\<lparr>INVOICE_ID := ''INV_'' @ zero_pad 7 n\<rparr>]"
  by (simp add: billing_rows_def ex2_num_months ex2_invoice_row_0 ex2_invoice_row_1
      List.map_filter_def upt_numeral)

lemma ex2_billing:
  "billing_data rnd0 1 (midnight (2025, 7, 31)) (midnight (2025, 8, 1)) = Inr example2_billing"
proof -
  have ne: "example2_readings \<noteq> []"
    by (simp add: example2_readings_def)
  have zp: "zero_pad 7 80001 = ''0080001''"
    by (simp add: string_eval)
  show ?thesis
    by (simp add: billing_data_def ex2_readings ex_overdue ex_customers ex2_billing_rows ne zp,
        simp add: example2_billing_def)
qed

lemma example2_run:
  "generate_energy_provider_data rnd0 1 (midnight (2025, 7, 31)) (midnight (2025, 8, 1)) =
     Inr example2_tables"
  by (simp add: generate_energy_provider_data_def ex_customers ex_contracts ex2_readings
      ex2_billing ex_cases example2_tables_def, simp add: example2_billing_def example_cases_def)

section \<open>Where the code departs from its own intent\<close>

text \<open>
  C1 on the run of the first example, from 2025-08-30 to 2025-08-31 with one customer
  and readings of 10 kWh at 12:30 on both days. The consumption period of the invoice is
  2025-08-01 to 2025-08-31 and both readings lie in it, so C1 gives
  round(0.35 * 20 + 5.50, 2) = 12.5. The code selects the readings up to the timestamp
  period_end, which is midnight of 2025-08-31, leaves the reading of that day out and
  bills 9.
\<close>

theorem amount_due_on_example:
  "generate_energy_provider_data rnd0 1 (midnight (2025, 8, 30)) (midnight (2025, 8, 31)) =
     Inr example_tables \<and>
   billing_df example_tables = [example_billing ! 0] \<and>
   CONSUMPTION_PERIOD_START (example_billing ! 0) = (2025, 8, 1) \<and>
   CONSUMPTION_PERIOD_END (example_billing ! 0) = (2025, 8, 31) \<and>
   claimed_amount_due (readings_df example_tables) (example_billing ! 0) = 12.5 \<and>
   AMOUNT_DUE (example_billing ! 0) = 9"
proof -
  have "claimed_amount_due example_readings (example_billing ! 0) = round2 (25 / 2)"
    by (simp add: claimed_amount_due_def example_readings_def example_billing_def date_of_def)
  moreover have "round2 (25 / 2) = 25 / 2"
    by (simp add: round2_def round_half_even_def)
  ultimately show ?thesis
    using example_run by (simp add: example_tables_def) (simp add: example_billing_def)
qed

text \<open>
  C2 on the run of the second example, from 2025-07-31 to 2025-08-01 with one customer.
  August intersects the window and has a reading, and the loop runs for two months, but
  the second run starts from 2025-07-31 plus one month, which is 2025-08-31 and later than
  end_date, and is left through \<^verbatim>\<open>continue\<close>: there is no invoice for August.
\<close>

theorem invoices_on_example2:
  "midnight (2025, 7, 31) \<le> midnight (2025, 8, 1) \<and>
   generate_energy_provider_data rnd0 1 (midnight (2025, 7, 31)) (midnight (2025, 8, 1)) =
     Inr example2_tables \<and>
   num_months (midnight (2025, 7, 31)) (midnight (2025, 8, 1)) = 2 \<and>
   TIMESTAMP (readings_df example2_tables ! 1) = ((2025, 8, 1), (12, 30, 0, 0)) \<and>
   length (invoices_in_month (billing_df example2_tables) ''CID_001001'' 2025 7) = 1 \<and>
   length (invoices_in_month (billing_df example2_tables) ''CID_001001'' 2025 8) = 0"
  using example2_run ex2_num_months
  by (simp add: example2_tables_def example2_readings_def example2_billing_def
      invoices_in_month_def midnight_def days_in_month_def)

text \<open>
  C4 on the same run: the only invoice of the customer ends on 2025-07-31 and is paid, so
  no invoice covers end_date and none is pending.
\<close>

theorem pending_invoice_on_example2:
  "generate_energy_provider_data rnd0 1 (midnight (2025, 7, 31)) (midnight (2025, 8, 1)) =
     Inr example2_tables \<and>
   CUSTOMER_ID (customers_df example2_tables ! 0) = ''CID_001001'' \<and>
   invoices_covering (billing_df example2_tables) ''CID_001001''
     (date_of (midnight (2025, 8, 1))) = [] \<and>
   map PAYMENT_STATUS (billing_df example2_tables) = [''paid'']"
  using example2_run
  by (simp add: example2_tables_def example2_billing_def invoices_covering_def
      midnight_def date_of_def)

end
